theory Spec2Isabelle
  imports Main "HOL-Library.AList"
begin

section \<open>Python strings\<close>

text \<open>
  A Python \<open>str\<close> is modelled as a \<open>string\<close>; every \<open>char\<close> stands for the code point
  of the same number, so the model covers text whose code points are below 256.
  \<open>is_space\<close> is \<open>str.isspace\<close> on one such code point: TAB, LF, VT, FF, CR, the four
  separators 0x1C..0x1F, the blank, NEL (0x85) and the no-break space (0xA0).
\<close>

definition is_space :: "char \<Rightarrow> bool" where
  "is_space c =
     (let n = (of_char c :: nat)
      in (9 \<le> n \<and> n \<le> 13) \<or> (28 \<le> n \<and> n \<le> 32) \<or> n = 133 \<or> n = 160)"

definition is_digit :: "char \<Rightarrow> bool" where
  "is_digit c = (let n = (of_char c :: nat) in 48 \<le> n \<and> n \<le> 57)"

text \<open>\<open>s.lstrip()\<close>, \<open>s.rstrip()\<close>, \<open>s.strip()\<close>.\<close>

definition py_lstrip :: "string \<Rightarrow> string" where
  "py_lstrip s = dropWhile is_space s"

definition py_rstrip :: "string \<Rightarrow> string" where
  "py_rstrip s = rev (dropWhile is_space (rev s))"

definition py_strip :: "string \<Rightarrow> string" where
  "py_strip s = py_rstrip (py_lstrip s)"

text \<open>\<open>s.rstrip(chars)\<close> and \<open>s.strip(chars)\<close>: the characters of \<open>chars\<close> are a set.\<close>

definition py_rstrip_chars :: "string \<Rightarrow> string \<Rightarrow> string" where
  "py_rstrip_chars chars s = rev (dropWhile (\<lambda>c. c \<in> set chars) (rev s))"

definition py_strip_chars :: "string \<Rightarrow> string \<Rightarrow> string" where
  "py_strip_chars chars s = py_rstrip_chars chars (dropWhile (\<lambda>c. c \<in> set chars) s)"

text \<open>\<open>s.startswith(p)\<close>, \<open>s.endswith(p)\<close>, \<open>p in s\<close> for strings.\<close>

definition py_startswith :: "string \<Rightarrow> string \<Rightarrow> bool" where
  "py_startswith s p = (take (length p) s = p)"

definition py_endswith :: "string \<Rightarrow> string \<Rightarrow> bool" where
  "py_endswith s p = (length p \<le> length s \<and> drop (length s - length p) s = p)"

fun py_substring :: "string \<Rightarrow> string \<Rightarrow> bool" where
  "py_substring p [] = (p = [])"
| "py_substring p (c # cs) = (py_startswith (c # cs) p \<or> py_substring p cs)"

text \<open>
  \<open>s.find(c)\<close> for a one-character \<open>c\<close>: the index of the first occurrence, or \<open>-1\<close>.
  \<open>s[:i]\<close> for an integer \<open>i\<close>: a negative \<open>i\<close> counts from the end.
\<close>

definition py_find :: "string \<Rightarrow> char \<Rightarrow> int" where
  "py_find s c = (if c \<in> set s then int (length (takeWhile (\<lambda>x. x \<noteq> c) s)) else - 1)"

definition py_slice_to :: "string \<Rightarrow> int \<Rightarrow> string" where
  "py_slice_to s i = (if 0 \<le> i then take (nat i) s else take (length s - nat (- i)) s)"

text \<open>\<open>s.split(sep)\<close> for a one-character separator: never the empty list.\<close>

fun py_split :: "char \<Rightarrow> string \<Rightarrow> string list" where
  "py_split sep [] = [[]]"
| "py_split sep (c # cs) =
     (if c = sep then [] # py_split sep cs
      else (case py_split sep cs of
              w # ws \<Rightarrow> (c # w) # ws
            | [] \<Rightarrow> [[c]]))"

text \<open>
  \<open>s.split(sep, 1)\<close> where \<open>sep\<close> occurs in \<open>s\<close>: the text before the first occurrence and
  the text after it.
\<close>

definition py_split_once :: "char \<Rightarrow> string \<Rightarrow> string \<times> string" where
  "py_split_once sep s =
     (takeWhile (\<lambda>x. x \<noteq> sep) s, drop 1 (dropWhile (\<lambda>x. x \<noteq> sep) s))"

text \<open>
  \<open>s.replace(old, new)\<close>: the occurrences of \<open>old\<close> are found from left to right, without
  overlap, in \<open>s\<close> itself; the text put in is not looked at again. An empty \<open>old\<close> matches
  before every character and at the end.
\<close>

function py_replace :: "string \<Rightarrow> string \<Rightarrow> string \<Rightarrow> string" where
  "py_replace [] old new = (if old = [] then new else [])"
| "py_replace (c # cs) old new =
     (if old = [] then new @ c # py_replace cs old new
      else if py_startswith (c # cs) old
           then new @ py_replace (drop (length old) (c # cs)) old new
           else c # py_replace cs old new)"
  by pat_completeness auto
termination
  by (relation "measure (\<lambda>(s, old, new). length s)") auto

text \<open>\<open>s.lower()\<close> on code points below 256: the ASCII capitals and the Latin-1 capitals.\<close>

definition lower_char :: "char \<Rightarrow> char" where
  "lower_char c =
     (let n = (of_char c :: nat)
      in if (65 \<le> n \<and> n \<le> 90) \<or> (192 \<le> n \<and> n \<le> 214) \<or> (216 \<le> n \<and> n \<le> 222)
         then char_of (n + 32) else c)"

definition py_lower :: "string \<Rightarrow> string" where
  "py_lower s = map lower_char s"

text \<open>\<open>str(n)\<close> for an integer: decimal digits, with a minus sign below zero.\<close>

fun dec :: "nat \<Rightarrow> string" where
  "dec n = (if n < 10 then [char_of (48 + n)] else dec (n div 10) @ [char_of (48 + n mod 10)])"

definition str_of_int :: "int \<Rightarrow> string" where
  "str_of_int i = (if i < 0 then CHR ''-'' # dec (nat (- i)) else dec (nat i))"

section \<open>The legacy parser\<close>

subsection \<open>Comment stripping\<close>

text \<open>
  \<open>_strip_comment\<close> of \<open>cfg_loader.py\<close>. One round of its loop, for the marker \<open>sep\<close>:
  the line is cut at the first \<open>sep\<close> when that is at index 0 or when the text before it,
  stripped, is not empty.
\<close>

definition cfg_loader_strip_sep :: "char \<Rightarrow> string \<Rightarrow> string" where
  "cfg_loader_strip_sep sep line =
     (if sep \<in> set line then
        (let idx = py_find line sep
         in if idx = 0 \<or> py_strip (py_slice_to line idx) \<noteq> []
            then py_slice_to line idx else line)
      else line)"

definition cfg_loader_strip_comment :: "string \<Rightarrow> string" where
  "cfg_loader_strip_comment line =
     py_strip (cfg_loader_strip_sep (CHR ''#'') (cfg_loader_strip_sep (CHR '';'') line))"

text \<open>\<open>_strip_comment\<close> of \<open>utils/config.py\<close>: the line is cut at the first \<open>sep\<close>.\<close>

definition config_strip_sep :: "char \<Rightarrow> string \<Rightarrow> string" where
  "config_strip_sep sep line =
     (if sep \<in> set line then
        (let idx = py_find line sep
         in if 0 \<le> idx then py_slice_to line idx else line)
      else line)"

definition config_strip_comment :: "string \<Rightarrow> string" where
  "config_strip_comment line =
     py_strip (config_strip_sep (CHR ''#'') (config_strip_sep (CHR '';'') line))"

subsection \<open>Value typing\<close>

text \<open>
  What \<open>_parse_value\<close> returns: a \<open>str\<close>, an \<open>int\<close>, a \<open>float\<close> or a list of \<open>str\<close>.
  Binary floating point is outside the model: a float is kept as the decimal text that
  \<open>float\<close> was applied to.
\<close>

datatype cval = CStr string | CInt int | CFloat string | CList "string list"

definition dquote :: char where
  "dquote = CHR 0x22"

definition squote :: char where
  "squote = CHR 0x27"

definition strip_sign :: "string \<Rightarrow> string" where
  "strip_sign s =
     (case s of [] \<Rightarrow> [] | c # cs \<Rightarrow> if c = CHR ''-'' \<or> c = CHR ''+'' then cs else s)"

text \<open>\<open>re.fullmatch(r"[-+]?\d+", s)\<close> and \<open>re.fullmatch(r"[-+]?\d*\.\d+", s)\<close>.\<close>

definition matches_int :: "string \<Rightarrow> bool" where
  "matches_int s = (let ds = strip_sign s in ds \<noteq> [] \<and> list_all is_digit ds)"

definition matches_float :: "string \<Rightarrow> bool" where
  "matches_float s =
     (case dropWhile is_digit (strip_sign s) of
        [] \<Rightarrow> False
      | c # fs \<Rightarrow> c = CHR ''.'' \<and> fs \<noteq> [] \<and> list_all is_digit fs)"

definition digits_val :: "string \<Rightarrow> int" where
  "digits_val ds = foldl (\<lambda>a c. 10 * a + (int (of_char c) - 48)) 0 ds"

text \<open>
  \<open>int(s)\<close> for a string: surrounding whitespace is dropped, a sign is optional, and the
  digits may be grouped by single underscores. \<open>None\<close> is the \<open>ValueError\<close>. (The
  interpreter's optional limit on the number of digits is not modelled.)
\<close>

fun no_double_underscore :: "string \<Rightarrow> bool" where
  "no_double_underscore (a # b # cs) =
     (\<not> (a = CHR ''_'' \<and> b = CHR ''_'') \<and> no_double_underscore (b # cs))"
| "no_double_underscore cs = True"

definition py_int_of_str :: "string \<Rightarrow> int option" where
  "py_int_of_str raw =
     (let s = py_strip raw; body = strip_sign s
      in if body \<noteq> [] \<and> is_digit (hd body) \<and> is_digit (last body)
            \<and> list_all (\<lambda>c. is_digit c \<or> c = CHR ''_'') body \<and> no_double_underscore body
         then Some ((if take 1 s = ''-'' then - 1 else 1) * digits_val (filter is_digit body))
         else None)"

text \<open>
  One item of a quoted list: an item in double quotes loses them, any other item loses
  every double quote and then every single quote at its two ends.
\<close>

definition parse_item :: "string \<Rightarrow> string" where
  "parse_item item =
     (if py_startswith item [dquote] \<and> py_endswith item [dquote] \<and> 2 \<le> length item
      then butlast (tl item)
      else py_strip_chars [squote] (py_strip_chars [dquote] item))"

text \<open>
  \<open>_parse_value\<close>; the two modules hold the same code. \<open>int(s)\<close> is guarded by
  \<open>try\<close>/\<open>except\<close> in the source: a failure falls through to the next rule.
\<close>

definition parse_value :: "string \<Rightarrow> cval" where
  "parse_value raw =
     (let s = py_strip raw
      in if s = [] then CStr []
         else if dquote \<in> set s then
           (let cleaned = map (\<lambda>item. parse_item (py_strip item)) (py_split (CHR '','') s)
            in if length cleaned \<noteq> 1 then CList cleaned else CStr (hd cleaned))
         else
           (case (if matches_int s then py_int_of_str s else None) of
              Some i \<Rightarrow> CInt i
            | None \<Rightarrow>
                if matches_float s then CFloat s
                else if s = ''0'' \<or> s = ''1'' then CInt (digits_val s)
                else CStr s))"

subsection \<open>Lines to a key/value dictionary\<close>

text \<open>
  A \<open>dict\<close> is an association list in insertion order; \<open>d[k] = v\<close> is \<open>AList.update\<close>
  (an existing key keeps its place) and \<open>d.get(k)\<close> is \<open>map_of\<close>.
\<close>

type_synonym cfg = "(string \<times> cval) list"

text \<open>The body of the loop of \<open>parse_cfg_file\<close> (\<open>cfg_loader.py\<close>).\<close>

definition cfg_loader_parse_line :: "cfg \<Rightarrow> string \<Rightarrow> cfg" where
  "cfg_loader_parse_line config raw =
     (let line = cfg_loader_strip_comment raw
      in if line = [] then config
         else if CHR ''='' \<notin> set line then config
         else (let (key, val) = py_split_once (CHR ''='') line
               in AList.update (py_strip key) (parse_value val) config))"

definition parse_cfg_file :: "string list \<Rightarrow> cfg" where
  "parse_cfg_file lines = foldl cfg_loader_parse_line [] lines"

text \<open>The body of the first loop of \<open>Config._load_from_cfg\<close> (\<open>utils/config.py\<close>).\<close>

definition config_parse_line :: "cfg \<Rightarrow> string \<Rightarrow> cfg" where
  "config_parse_line config raw =
     (let line = config_strip_comment raw
      in if line = [] \<or> CHR ''='' \<notin> set line then config
         else (let (key, val) = py_split_once (CHR ''='') line
               in AList.update (py_strip key) (parse_value val) config))"

definition config_parse_lines :: "string list \<Rightarrow> cfg" where
  "config_parse_lines lines = foldl config_parse_line [] lines"

section \<open>Placeholders and templates\<close>

text \<open>
  What the code takes from its surroundings: the host name, the three time tokens (each
  read from the clock by its own call), \<open>os.path.expanduser\<close> and \<open>os.path.expandvars\<close>,
  and what \<open>str\<close>, \<open>bool\<close> and \<open>int\<close> give on a float and \<open>str\<close> on a list of strings
  (\<open>float_int\<close> is \<open>None\<close> where \<open>int\<close> raises \<open>OverflowError\<close>).
\<close>

record pyenv =
  hostname :: string
  datetime_token :: string
  date_token :: string
  time_token :: string
  expanduser :: "string \<Rightarrow> string"
  expandvars :: "string \<Rightarrow> string"
  float_str :: "string \<Rightarrow> string"
  float_nonzero :: "string \<Rightarrow> bool"
  float_int :: "string \<Rightarrow> int option"
  list_str :: "string list \<Rightarrow> string"

text \<open>\<open>bool(v)\<close> and \<open>str(v)\<close> for a parsed value.\<close>

fun py_truthy :: "pyenv \<Rightarrow> cval \<Rightarrow> bool" where
  "py_truthy env (CStr s) = (s \<noteq> [])"
| "py_truthy env (CInt i) = (i \<noteq> 0)"
| "py_truthy env (CFloat f) = float_nonzero env f"
| "py_truthy env (CList xs) = (xs \<noteq> [])"

fun py_str :: "pyenv \<Rightarrow> cval \<Rightarrow> string" where
  "py_str env (CStr s) = s"
| "py_str env (CInt i) = str_of_int i"
| "py_str env (CFloat f) = float_str env f"
| "py_str env (CList xs) = list_str env xs"

text \<open>\<open>str(cfg.get(key) or dflt)\<close> for a string \<open>dflt\<close>.\<close>

definition cfg_str_or :: "pyenv \<Rightarrow> cfg \<Rightarrow> string \<Rightarrow> string \<Rightarrow> string" where
  "cfg_str_or env cfg key dflt =
     (case map_of cfg key of
        None \<Rightarrow> dflt
      | Some v \<Rightarrow> if py_truthy env v then py_str env v else dflt)"

text \<open>
  The dictionary \<open>placeholders\<close>, in the order in which the source writes its keys, which
  is the order in which a \<open>dict\<close> is iterated.
\<close>

definition placeholders :: "pyenv \<Rightarrow> cfg \<Rightarrow> (string \<times> string) list" where
  "placeholders env cfg =
     [(''datetime'', datetime_token env),
      (''date'', date_token env),
      (''time'', time_token env),
      (''hostname'', hostname env),
      (''m'', cfg_str_or env cfg ''BidsModality'' ''eeg''),
      (''p'', cfg_str_or env cfg ''Participant'' ''P001''),
      (''s'', cfg_str_or env cfg ''Session'' ''S001''),
      (''b'', cfg_str_or env cfg ''Block'' ''task''),
      (''a'', cfg_str_or env cfg ''Acq'' ''acq''),
      (''r'', cfg_str_or env cfg ''Run'' ''01'')]"

text \<open>\<open>expand_template\<close> (\<open>_expand_template\<close> in \<open>utils/config.py\<close>): one \<open>replace\<close> per entry.\<close>

fun expand_template :: "string \<Rightarrow> (string \<times> string) list \<Rightarrow> string" where
  "expand_template result [] = result"
| "expand_template result ((key, val) # rest) =
     expand_template (py_replace result (CHR ''%'' # key) val) rest"

section \<open>Paths\<close>

text \<open>
  \<open>os.path.join\<close> of two parts and \<open>os.path.split\<close>, as \<open>posixpath\<close> defines them: the
  separator is the slash, and \<open>split\<close> cuts after the last slash and drops the slashes
  that end the head unless the head is nothing but slashes.
\<close>

definition path_join :: "string \<Rightarrow> string \<Rightarrow> string" where
  "path_join a b =
     (if py_startswith b ''/'' then b
      else if a = [] \<or> py_endswith a ''/'' then a @ b
      else a @ ''/'' @ b)"

definition path_split :: "string \<Rightarrow> string \<times> string" where
  "path_split p =
     (let i = length p - length (takeWhile (\<lambda>c. c \<noteq> CHR ''/'') (rev p));
          head = take i p;
          tail = drop i p
      in (if head \<noteq> [] \<and> head \<noteq> replicate (length head) (CHR ''/'')
          then py_rstrip_chars ''/'' head else head,
          tail))"

text \<open>
  \<open>_sanitize_basename\<close>: \<open>re.sub\<close> with the class \<open>[<>:"/\\|?*]\<close> puts a hyphen for each
  character of the class, and \<open>rstrip(' .')\<close> drops the blanks and dots at the end.
\<close>

definition invalid_chars :: "char list" where
  "invalid_chars =
     [CHR ''<'', CHR ''>'', CHR '':'', CHR 0x22, CHR ''/'', CHR 0x5C, CHR ''|'', CHR ''?'',
      CHR ''*'']"

definition sanitize_basename :: "string \<Rightarrow> string" where
  "sanitize_basename name =
     py_rstrip_chars '' .'' (map (\<lambda>c. if c \<in> set invalid_chars then CHR ''-'' else c) name)"

text \<open>
  The lines of \<open>build_filename_from_cfg\<close> that split the path, sanitize the base name and
  join the two again (the same lines stand in \<open>Config._load_from_cfg\<close>).
\<close>

definition sanitize_path :: "string \<Rightarrow> string" where
  "sanitize_path dest =
     (let (dir_name, base_name) = path_split dest
      in path_join dir_name (sanitize_basename base_name))"

section \<open>Filename resolution\<close>

text \<open>\<open>str(cfg.get(key) or '').strip()\<close>, the form in which the three path fields are read.\<close>

definition cfg_field :: "pyenv \<Rightarrow> cfg \<Rightarrow> string \<Rightarrow> string" where
  "cfg_field env cfg key = py_strip (cfg_str_or env cfg key [])"

text \<open>\<open>build_filename_from_cfg\<close>, first part: the choice of \<open>dest\<close>.\<close>

definition choose_dest :: "pyenv \<Rightarrow> cfg \<Rightarrow> string" where
  "choose_dest env cfg =
     (let study_root = cfg_field env cfg ''StudyRoot'';
          storage_location = cfg_field env cfg ''StorageLocation'';
          path_template = cfg_field env cfg ''PathTemplate'';
          ph = placeholders env cfg
      in if storage_location \<noteq> [] then expand_template storage_location ph
         else if study_root \<noteq> [] \<and> path_template \<noteq> []
           then path_join study_root (expand_template path_template ph)
         else if study_root \<noteq> []
           then path_join study_root
                  (''LabRecorder_'' @ hostname env @ ''_'' @ datetime_token env @ ''_eeg.xdf'')
         else if path_template \<noteq> [] then expand_template path_template ph
         else ''recording.xdf'')"

text \<open>
  Second part, the same in both modules: the extension, the sanitized base name, and the
  expansion of the user's home and of environment variables.
\<close>

definition finish_dest :: "pyenv \<Rightarrow> string \<Rightarrow> string" where
  "finish_dest env dest =
     (let dest = (if \<not> py_endswith (py_lower dest) ''.xdf'' then dest @ ''.xdf'' else dest)
      in expandvars env (expanduser env (sanitize_path dest)))"

definition build_filename_from_cfg :: "pyenv \<Rightarrow> cfg \<Rightarrow> string" where
  "build_filename_from_cfg env cfg = finish_dest env (choose_dest env cfg)"

section \<open>The configuration store\<close>

subsection \<open>Objects\<close>

text \<open>
  The nested dictionaries of the store are shared objects that the code changes in place,
  so a dictionary lives in a heap, at an address, and a value refers to it by \<open>PDict\<close>.
  \<open>fresh\<close> is the next address to give out. A float is kept as decimal text.
\<close>

datatype py_error =
  KeyError | TypeError | AttributeError | ValueError | OverflowError | OSError

type_synonym addr = nat

datatype pval =
  PNone | PBool bool | PInt int | PFloat string | PStr string | PList "pval list" | PDict addr

type_synonym pydict = "(string \<times> pval) list"

record pyheap =
  objs :: "addr \<Rightarrow> pydict"
  fresh :: addr

definition alloc :: "pyheap \<Rightarrow> pydict \<Rightarrow> pyheap \<times> addr" where
  "alloc h d = (h\<lparr>objs := (objs h)(fresh h := d), fresh := Suc (fresh h)\<rparr>, fresh h)"

text \<open>
  \<open>v[k]\<close>, \<open>k in v\<close> and \<open>v[k] = x\<close> for a string \<open>k\<close>. Only a dictionary can be
  subscripted by a string; \<open>in\<close> is also defined on a string (substring) and on a list
  (an element equal to \<open>k\<close>).
\<close>

fun py_getitem :: "pyheap \<Rightarrow> pval \<Rightarrow> string \<Rightarrow> py_error + pval" where
  "py_getitem h (PDict a) k =
     (case map_of (objs h a) k of None \<Rightarrow> Inl KeyError | Some v \<Rightarrow> Inr v)"
| "py_getitem h v k = Inl TypeError"

fun py_contains :: "pyheap \<Rightarrow> pval \<Rightarrow> string \<Rightarrow> py_error + bool" where
  "py_contains h (PDict a) k = Inr (map_of (objs h a) k \<noteq> None)"
| "py_contains h (PStr s) k = Inr (py_substring k s)"
| "py_contains h (PList xs) k = Inr (PStr k \<in> set xs)"
| "py_contains h v k = Inl TypeError"

fun py_setitem :: "pyheap \<Rightarrow> pval \<Rightarrow> string \<Rightarrow> pval \<Rightarrow> py_error + pyheap" where
  "py_setitem h (PDict a) k x = Inr (h\<lparr>objs := (objs h)(a := AList.update k x (objs h a))\<rparr>)"
| "py_setitem h v k x = Inl TypeError"

text \<open>\<open>d.get(k, dflt)\<close> on a dictionary.\<close>

definition dict_get :: "pydict \<Rightarrow> string \<Rightarrow> pval \<Rightarrow> pval" where
  "dict_get d k dflt = (case map_of d k of None \<Rightarrow> dflt | Some v \<Rightarrow> v)"

subsection \<open>The class and its instances\<close>

text \<open>
  \<open>Config.DEFAULT_CONFIG\<close>, built once when the class is defined: three inner dictionaries
  and the outer one that refers to them.
\<close>

definition DEFAULT_CONFIG :: addr where
  "DEFAULT_CONFIG = 3"

definition class_heap :: pyheap where
  "class_heap =
     \<lparr>objs = (\<lambda>a. [])
        (0 := [(''enabled'', PBool True), (''port'', PInt 22345)],
         1 := [(''buffer_size'', PInt 360), (''max_samples_per_pull'', PInt 500),
               (''clock_sync_interval'', PFloat ''5.0'')],
         2 := [(''timeout'', PFloat ''2.0''), (''recover'', PBool True)],
         3 := [(''filename'', PStr ''recording.xdf''), (''remote_control'', PDict 0),
               (''recording'', PDict 1), (''streams'', PDict 2)]),
      fresh = 4\<rparr>"

record config_obj =
  config :: addr
  config_file :: "string option"

subsection \<open>\<open>get\<close> and \<open>set\<close>\<close>

text \<open>The loop of \<open>Config.get\<close>, and the method with its \<open>except (KeyError, TypeError)\<close>.\<close>

fun get_walk :: "pyheap \<Rightarrow> pval \<Rightarrow> string list \<Rightarrow> py_error + pval" where
  "get_walk h val [] = Inr val"
| "get_walk h val (k # ks) =
     (case py_getitem h val k of Inl e \<Rightarrow> Inl e | Inr v \<Rightarrow> get_walk h v ks)"

definition Config_get :: "pyheap \<Rightarrow> config_obj \<Rightarrow> string \<Rightarrow> pval \<Rightarrow> py_error + pval" where
  "Config_get h self key dflt =
     (case get_walk h (PDict (config self)) (py_split (CHR ''.'') key) of
        Inr v \<Rightarrow> Inr v
      | Inl e \<Rightarrow> if e = KeyError \<or> e = TypeError then Inr dflt else Inl e)"

text \<open>
  The loop of \<open>Config.set\<close> over \<open>keys[:-1]\<close>: it gives the object reached, or the exception,
  and the heap at that moment. The new \<open>{}\<close> exists before it is assigned.
\<close>

fun set_walk :: "pyheap \<Rightarrow> pval \<Rightarrow> string list \<Rightarrow> (py_error + pval) \<times> pyheap" where
  "set_walk h conf [] = (Inr conf, h)"
| "set_walk h conf (k # ks) =
     (case py_contains h conf k of
        Inl e \<Rightarrow> (Inl e, h)
      | Inr True \<Rightarrow>
          (case py_getitem h conf k of
             Inl e \<Rightarrow> (Inl e, h)
           | Inr c \<Rightarrow> set_walk h c ks)
      | Inr False \<Rightarrow>
          (case py_setitem (fst (alloc h [])) conf k (PDict (snd (alloc h []))) of
             Inl e \<Rightarrow> (Inl e, fst (alloc h []))
           | Inr h2 \<Rightarrow>
               (case py_getitem h2 conf k of
                  Inl e \<Rightarrow> (Inl e, h2)
                | Inr c \<Rightarrow> set_walk h2 c ks)))"

text \<open>\<open>Config.set\<close>: the exception raised, if any, and the heap it leaves.\<close>

definition Config_set ::
  "pyheap \<Rightarrow> config_obj \<Rightarrow> string \<Rightarrow> pval \<Rightarrow> py_error option \<times> pyheap" where
  "Config_set h self key val =
     (let keys = py_split (CHR ''.'') key
      in case set_walk h (PDict (config self)) (butlast keys) of
           (Inl e, h1) \<Rightarrow> (Some e, h1)
         | (Inr conf, h1) \<Rightarrow>
             (case py_setitem h1 conf (last keys) val of
                Inl e \<Rightarrow> (Some e, h1)
              | Inr h2 \<Rightarrow> (None, h2)))"

subsection \<open>Loading a JSON file\<close>

text \<open>
  What \<open>json.load\<close> returns, as a tree; the keys of a \<open>JObj\<close> are distinct, as those of
  a dictionary are. Its dictionaries are new objects that nothing else refers to; they
  enter the heap when \<open>_deep_update\<close> assigns them.
\<close>

datatype jval =
  JNull | JBool bool | JInt int | JFloat string | JStr string | JList "jval list"
  | JObj "(string \<times> jval) list"

fun store_json :: "jval \<Rightarrow> pyheap \<Rightarrow> pval \<times> pyheap"
  and store_list :: "jval list \<Rightarrow> pyheap \<Rightarrow> pval list \<times> pyheap"
  and store_items :: "(string \<times> jval) list \<Rightarrow> pyheap \<Rightarrow> pydict \<times> pyheap" where
  "store_json JNull h = (PNone, h)"
| "store_json (JBool b) h = (PBool b, h)"
| "store_json (JInt i) h = (PInt i, h)"
| "store_json (JFloat f) h = (PFloat f, h)"
| "store_json (JStr s) h = (PStr s, h)"
| "store_json (JList xs) h = (case store_list xs h of (vs, h1) \<Rightarrow> (PList vs, h1))"
| "store_json (JObj kvs) h =
     (case store_items kvs h of
        (d, h1) \<Rightarrow> (PDict (snd (alloc h1 d)), fst (alloc h1 d)))"
| "store_list [] h = ([], h)"
| "store_list (x # xs) h =
     (case store_json x h of
        (v, h1) \<Rightarrow> (case store_list xs h1 of (vs, h2) \<Rightarrow> (v # vs, h2)))"
| "store_items [] h = ([], h)"
| "store_items ((k, x) # kvs) h =
     (case store_json x h of
        (v, h1) \<Rightarrow> (case store_items kvs h1 of (d, h2) \<Rightarrow> ((k, v) # d, h2)))"

text \<open>
  \<open>Config._deep_update\<close>, for a base dictionary in the heap and the items of the update.
\<close>

function deep_update :: "pyheap \<Rightarrow> addr \<Rightarrow> (string \<times> jval) list \<Rightarrow> pyheap" where
  "deep_update h base [] = h"
| "deep_update h base ((key, val) # rest) =
     (case (map_of (objs h base) key, val) of
        (Some (PDict b), JObj sub) \<Rightarrow> deep_update (deep_update h b sub) base rest
      | _ \<Rightarrow>
          (case store_json val h of
             (v, h1) \<Rightarrow>
               deep_update
                 (h1\<lparr>objs := (objs h1)(base := AList.update key v (objs h1 base))\<rparr>) base rest))"
  by pat_completeness auto
termination
  by (relation "measure (\<lambda>(h, base, kvs). size_list (size_prod (\<lambda>k. 0) size) kvs)") auto

subsection \<open>Loading a legacy file\<close>

text \<open>
  The files the code reads: whether a path exists, what \<open>_read_cfg_lines\<close> gives for it
  and what \<open>open\<close> followed by \<open>json.load\<close> gives for it, each of them possibly an exception.
\<close>

record filesystem =
  path_exists :: "string \<Rightarrow> bool"
  read_cfg_lines :: "string \<Rightarrow> py_error + string list"
  load_json :: "string \<Rightarrow> py_error + jval"

text \<open>\<open>int(v)\<close> for a parsed value.\<close>

fun py_int :: "pyenv \<Rightarrow> cval \<Rightarrow> py_error + int" where
  "py_int env (CInt i) = Inr i"
| "py_int env (CStr s) = (case py_int_of_str s of None \<Rightarrow> Inl ValueError | Some i \<Rightarrow> Inr i)"
| "py_int env (CFloat f) = (case float_int env f of None \<Rightarrow> Inl OverflowError | Some i \<Rightarrow> Inr i)"
| "py_int env (CList xs) = Inl TypeError"

text \<open>
  The choice of \<open>dest\<close> in \<open>Config._load_from_cfg\<close>; the last branch is
  \<open>self.config.get('filename', 'recording.xdf')\<close>, which need not be a string.
\<close>

definition config_choose_dest :: "pyenv \<Rightarrow> cfg \<Rightarrow> pval \<Rightarrow> pval" where
  "config_choose_dest env cfg stored =
     (let study_root = cfg_field env cfg ''StudyRoot'';
          storage_location = cfg_field env cfg ''StorageLocation'';
          path_template = cfg_field env cfg ''PathTemplate'';
          ph = placeholders env cfg
      in if storage_location \<noteq> [] then PStr (expand_template storage_location ph)
         else if study_root \<noteq> [] \<and> path_template \<noteq> []
           then PStr (path_join study_root (expand_template path_template ph))
         else if study_root \<noteq> []
           then PStr (path_join study_root
                  (''LabRecorder_'' @ hostname env @ ''_'' @ datetime_token env @ ''_eeg.xdf''))
         else if path_template \<noteq> [] then PStr (expand_template path_template ph)
         else stored)"

text \<open>
  One of the three blocks \<open>try: self.set(key, conv(int(raw))) except Exception: pass\<close>,
  entered when \<open>cfg.get(name)\<close> is not \<open>None\<close>: any exception is dropped, the heap stays as
  the exception left it.
\<close>

definition try_set_int ::
  "pyenv \<Rightarrow> cfg \<Rightarrow> pyheap \<Rightarrow> config_obj \<Rightarrow> string \<Rightarrow> string \<Rightarrow> (int \<Rightarrow> pval) \<Rightarrow> pyheap" where
  "try_set_int env cfg h self name key conv =
     (case map_of cfg name of
        None \<Rightarrow> h
      | Some raw \<Rightarrow>
          (case py_int env raw of
             Inl e \<Rightarrow> h
           | Inr i \<Rightarrow> snd (Config_set h self key (conv i))))"

text \<open>The last block of \<open>Config._load_from_cfg\<close>, for \<open>RequiredStreams\<close>.\<close>

definition set_required_labels ::
  "pyenv \<Rightarrow> cfg \<Rightarrow> pyheap \<Rightarrow> config_obj \<Rightarrow> py_error option \<times> pyheap" where
  "set_required_labels env cfg h self =
     (case map_of cfg ''RequiredStreams'' of
        None \<Rightarrow> (None, h)
      | Some required \<Rightarrow>
          (let required_list = (case required of CList xs \<Rightarrow> xs | _ \<Rightarrow> [py_str env required]);
               h1 = fst (alloc h []);
               streams_cfg = dict_get (objs h1 (config self)) ''streams'' (PDict (snd (alloc h [])))
           in case py_setitem h1 streams_cfg ''required_labels'' (PList (map PStr required_list)) of
                Inl e \<Rightarrow> (Some e, h1)
              | Inr h2 \<Rightarrow>
                  (case py_setitem h2 (PDict (config self)) ''streams'' streams_cfg of
                     Inl e \<Rightarrow> (Some e, h2)
                   | Inr h3 \<Rightarrow> (None, h3))))"

text \<open>\<open>Config._load_from_cfg\<close>: the exception that leaves it, if any, and the heap.\<close>

definition Config_load_from_cfg ::
  "pyenv \<Rightarrow> filesystem \<Rightarrow> pyheap \<Rightarrow> config_obj \<Rightarrow> string \<Rightarrow> py_error option \<times> pyheap" where
  "Config_load_from_cfg env fs h self cfg_path =
     (case read_cfg_lines fs cfg_path of
        Inl e \<Rightarrow> (Some e, h)
      | Inr lines \<Rightarrow>
          (let cfg = config_parse_lines lines
           in case config_choose_dest env cfg
                     (dict_get (objs h (config self)) ''filename'' (PStr ''recording.xdf'')) of
                PStr dest \<Rightarrow>
                  (case Config_set h self ''filename'' (PStr (finish_dest env dest)) of
                     (Some e, h1) \<Rightarrow> (Some e, h1)
                   | (None, h1) \<Rightarrow>
                       (let h2 = try_set_int env cfg h1 self ''RCSEnabled''
                                   ''remote_control.enabled'' (\<lambda>i. PBool (i \<noteq> 0));
                            h3 = try_set_int env cfg h2 self ''RCSPort''
                                   ''remote_control.port'' PInt;
                            h4 = try_set_int env cfg h3 self ''AutoStart''
                                   ''auto_start'' (\<lambda>i. PBool (i \<noteq> 0))
                        in set_required_labels env cfg h4 self))
              | _ \<Rightarrow> (Some AttributeError, h)))"

subsection \<open>\<open>load_from_file\<close> and the constructor\<close>

text \<open>
  \<open>Config.load_from_file\<close>: every exception is caught and reported; the result is the
  exception reported, if any, and the heap. A JSON value that is not an object has no
  \<open>items\<close>.
\<close>

definition Config_load_from_file ::
  "pyenv \<Rightarrow> filesystem \<Rightarrow> pyheap \<Rightarrow> config_obj \<Rightarrow> string \<Rightarrow> py_error option \<times> pyheap" where
  "Config_load_from_file env fs h self filename =
     (if py_endswith (py_lower filename) ''.cfg''
      then Config_load_from_cfg env fs h self filename
      else (case load_json fs filename of
              Inl e \<Rightarrow> (Some e, h)
            | Inr (JObj kvs) \<Rightarrow> (None, deep_update h (config self) kvs)
            | Inr _ \<Rightarrow> (Some AttributeError, h)))"

text \<open>\<open>Config.__init__\<close>: \<open>self.config\<close> is \<open>DEFAULT_CONFIG.copy()\<close>, a copy of the outer
  dictionary only.\<close>

definition Config_init ::
  "pyenv \<Rightarrow> filesystem \<Rightarrow> pyheap \<Rightarrow> string option \<Rightarrow> config_obj \<times> pyheap" where
  "Config_init env fs h file =
     (let h1 = fst (alloc h (objs h DEFAULT_CONFIG));
          self = \<lparr>config = snd (alloc h (objs h DEFAULT_CONFIG)), config_file = file\<rparr>
      in case file of
           None \<Rightarrow> (self, h1)
         | Some f \<Rightarrow>
             if f \<noteq> [] \<and> path_exists fs f
             then (self, snd (Config_load_from_file env fs h1 self f))
             else (self, h1))"

section \<open>Notions used to state the properties\<close>

text \<open>
  A line whose first character is whitespace and whose first character that is not
  whitespace is a comment marker.
\<close>

definition is_marker :: "char \<Rightarrow> bool" where
  "is_marker c = (c = CHR '';'' \<or> c = CHR ''#'')"

definition indented_marker :: "string \<Rightarrow> bool" where
  "indented_marker line =
     (case dropWhile is_space line of
        [] \<Rightarrow> False
      | c # rest \<Rightarrow> is_marker c \<and> takeWhile is_space line \<noteq> [])"

text \<open>
  The walk of a dot path as the specification words it: segment by segment through
  nested mappings, with no result as soon as a segment is missing or the value at hand
  is not a mapping.
\<close>

fun lookup_path :: "pyheap \<Rightarrow> pval \<Rightarrow> string list \<Rightarrow> pval option" where
  "lookup_path h v [] = Some v"
| "lookup_path h (PDict a) (k # ks) =
     (case map_of (objs h a) k of None \<Rightarrow> None | Some v \<Rightarrow> lookup_path h v ks)"
| "lookup_path h v (k # ks) = None"

fun is_mapping :: "pval \<Rightarrow> bool" where
  "is_mapping (PDict a) = True"
| "is_mapping v = False"

text \<open>
  A dot path can be assigned from the value \<open>v\<close>: \<open>v\<close> is a mapping, and either the path
  ends here, or its first segment is absent from \<open>v\<close>, or the path can be assigned from
  what that segment holds.
\<close>

fun assignable :: "pyheap \<Rightarrow> pval \<Rightarrow> string list \<Rightarrow> bool" where
  "assignable h (PDict a) (k # k' # ks) =
     (case map_of (objs h a) k of None \<Rightarrow> True | Some v \<Rightarrow> assignable h v (k' # ks))"
| "assignable h (PDict a) ks = True"
| "assignable h v ks = False"

text \<open>Surroundings for the concrete cases: a host with fixed tokens and no files.\<close>

definition plain_env :: pyenv where
  "plain_env =
     \<lparr>hostname = ''lab1'', datetime_token = ''2024-01-02T030405.006Z'',
      date_token = ''2024-01-02'', time_token = ''030405.006Z'',
      expanduser = (\<lambda>s. s), expandvars = (\<lambda>s. s),
      float_str = (\<lambda>s. s), float_nonzero = (\<lambda>s. True), float_int = (\<lambda>s. None),
      list_str = (\<lambda>xs. [])\<rparr>"

definition no_files :: filesystem where
  "no_files =
     \<lparr>path_exists = (\<lambda>p. False), read_cfg_lines = (\<lambda>p. Inl OSError),
      load_json = (\<lambda>p. Inl OSError)\<rparr>"

text \<open>
  The dictionary entries that the walk of a dot path goes through, and \<open>Config.set\<close>
  started from any value rather than from \<open>self.config\<close>. \<open>grown h a k\<close> is the heap after
  \<open>config[k] = {}\<close> on the dictionary at \<open>a\<close>.
\<close>

fun trail :: "pyheap \<Rightarrow> pval \<Rightarrow> string list \<Rightarrow> (addr \<times> string) list" where
  "trail h (PDict a) (k # ks) =
     (a, k) # (case map_of (objs h a) k of None \<Rightarrow> [] | Some v \<Rightarrow> trail h v ks)"
| "trail h v ks = []"

definition set_from ::
  "pyheap \<Rightarrow> pval \<Rightarrow> string list \<Rightarrow> pval \<Rightarrow> py_error option \<times> pyheap" where
  "set_from h v keys val =
     (case set_walk h v (butlast keys) of
        (Inl e, h1) \<Rightarrow> (Some e, h1)
      | (Inr conf, h1) \<Rightarrow>
          (case py_setitem h1 conf (last keys) val of
             Inl e \<Rightarrow> (Some e, h1)
           | Inr h2 \<Rightarrow> (None, h2)))"

definition grown :: "pyheap \<Rightarrow> addr \<Rightarrow> string \<Rightarrow> pyheap" where
  "grown h a k =
     (fst (alloc h []))\<lparr>objs := (objs (fst (alloc h [])))
        (a := AList.update k (PDict (fresh h)) (objs (fst (alloc h [])) a))\<rparr>"

fun is_str :: "pval \<Rightarrow> bool" where
  "is_str (PStr s) = True"
| "is_str v = False"

text \<open>A first instance made without a file, and the heap after its construction.\<close>

definition first_config :: config_obj where
  "first_config = fst (Config_init plain_env no_files class_heap None)"

definition first_heap :: pyheap where
  "first_heap = snd (Config_init plain_env no_files class_heap None)"

text \<open>Two file systems for the concrete cases.\<close>

definition legacy_file :: filesystem where
  "legacy_file =
     \<lparr>path_exists = (\<lambda>p. True),
      read_cfg_lines = (\<lambda>p. Inr [''StorageLocation=take1.xdf'', ''RCSPort=7'', ''RequiredStreams=cam'']),
      load_json = (\<lambda>p. Inl OSError)\<rparr>"

definition broken_files :: filesystem where
  "broken_files =
     \<lparr>path_exists = (\<lambda>p. True), read_cfg_lines = (\<lambda>p. Inl OSError),
      load_json = (\<lambda>p. Inr (JList []))\<rparr>"

text \<open>The \<open>streams\<close> entry of an instance's dictionary is absent or a mapping.\<close>

definition streams_ok :: "pyheap \<Rightarrow> config_obj \<Rightarrow> bool" where
  "streams_ok h self =
     (case map_of (objs h (config self)) ''streams'' of
        None \<Rightarrow> True
      | Some v \<Rightarrow> is_mapping v)"

section \<open>Properties\<close>

text \<open>
  C1. The comment of \<open>cfg_loader.py\<close> says that a marker counts only at the start of the
  line or after whitespace. The code cuts the line \<open>val=a;b\<close> at the semicolon all the
  same, and leaves a marker that only whitespace precedes in place; the line
  \<open>key=1 ; trailing\<close> does give the integer 1.
\<close>

theorem cfg_loader_strip_comment_cuts_inside_value:
  "cfg_loader_strip_comment ''val=a;b'' = ''val=a''
   \<and> parse_cfg_file [''val=a;b''] = [(''val'', CStr ''a'')]
   \<and> cfg_loader_strip_comment '' ; note'' = ''; note''
   \<and> parse_cfg_file [''key=1 ; trailing''] = [(''key'', CInt 1)]"
  by code_simp

subsection \<open>The two comment strippers\<close>

lemma not_space_markers: "\<not> is_space (CHR '';'')" "\<not> is_space (CHR ''#'')"
  by (simp_all add: is_space_def)

lemma py_strip_Nil_iff: "py_strip s = [] \<longleftrightarrow> (\<forall>c\<in>set s. is_space c)"
proof -
  have a: "py_strip s = [] \<longleftrightarrow> (\<forall>c\<in>set (dropWhile is_space s). is_space c)"
    unfolding py_strip_def py_rstrip_def py_lstrip_def by (simp add: dropWhile_eq_Nil_conv)
  have b: "(\<forall>c\<in>set (dropWhile is_space s). is_space c) \<longleftrightarrow> dropWhile is_space s = []"
  proof
    assume h: "\<forall>c\<in>set (dropWhile is_space s). is_space c"
    show "dropWhile is_space s = []"
    proof (rule ccontr)
      assume n: "dropWhile is_space s \<noteq> []"
      then have "\<not> is_space (hd (dropWhile is_space s))" by (rule hd_dropWhile)
      moreover have "hd (dropWhile is_space s) \<in> set (dropWhile is_space s)" using n by simp
      ultimately show False using h by blast
    qed
  next
    assume e: "dropWhile is_space s = []"
    show "\<forall>c\<in>set (dropWhile is_space s). is_space c" unfolding e by simp
  qed
  show ?thesis using a b dropWhile_eq_Nil_conv[of is_space s] by blast
qed

lemma slice_find: "c \<in> set s \<Longrightarrow> py_slice_to s (py_find s c) = takeWhile (\<lambda>x. x \<noteq> c) s"
  by (simp add: py_slice_to_def py_find_def takeWhile_eq_take[symmetric])

lemma find_zero: "c \<in> set s \<Longrightarrow> py_find s c = 0 \<longleftrightarrow> takeWhile (\<lambda>x. x \<noteq> c) s = []"
  by (simp add: py_find_def)

lemma find_nonneg: "c \<in> set s \<Longrightarrow> 0 \<le> py_find s c"
  by (simp add: py_find_def)

lemma takeWhile_absent: "sep \<notin> set line \<Longrightarrow> takeWhile (\<lambda>x. x \<noteq> sep) line = line"
  by (induction line) auto

lemma config_strip_sep_eq: "config_strip_sep sep line = takeWhile (\<lambda>x. x \<noteq> sep) line"
proof (cases "sep \<in> set line")
  case True
  then show ?thesis by (simp add: config_strip_sep_def slice_find find_nonneg Let_def)
next
  case False
  then show ?thesis by (simp add: config_strip_sep_def takeWhile_absent)
qed

lemma cfg_loader_strip_sep_eq:
  "cfg_loader_strip_sep sep line =
     (if sep \<in> set line \<and> (takeWhile (\<lambda>x. x \<noteq> sep) line = []
            \<or> \<not> (\<forall>c\<in>set (takeWhile (\<lambda>x. x \<noteq> sep) line). is_space c))
      then takeWhile (\<lambda>x. x \<noteq> sep) line else line)"
proof (cases "sep \<in> set line")
  case True
  then show ?thesis
    by (simp add: cfg_loader_strip_sep_def Let_def slice_find find_zero py_strip_Nil_iff)
next
  case False
  then show ?thesis by (simp add: cfg_loader_strip_sep_def)
qed

lemma takeWhile_shape:
  assumes "\<forall>x\<in>set ws. is_space x" "\<not> is_space sep"
  shows "takeWhile (\<lambda>x. x \<noteq> sep) (ws @ c # r) =
           (if c = sep then ws else ws @ c # takeWhile (\<lambda>x. x \<noteq> sep) r)"
proof -
  have "\<And>x. x \<in> set ws \<Longrightarrow> x \<noteq> sep" using assms by auto
  then have "takeWhile (\<lambda>x. x \<noteq> sep) (ws @ c # r) = ws @ takeWhile (\<lambda>x. x \<noteq> sep) (c # r)"
    by (rule takeWhile_append2)
  then show ?thesis by simp
qed

lemma config_sep_shape:
  assumes "\<forall>x\<in>set ws. is_space x" "\<not> is_space sep"
  shows "config_strip_sep sep (ws @ c # r) =
           (if c = sep then ws else ws @ c # takeWhile (\<lambda>x. x \<noteq> sep) r)"
  unfolding config_strip_sep_eq using assms by (rule takeWhile_shape)

lemma loader_sep_shape:
  assumes ws: "\<forall>x\<in>set ws. is_space x" and sep: "\<not> is_space sep" and c: "\<not> is_space c"
  shows "cfg_loader_strip_sep sep (ws @ c # r) =
           (if c = sep then (if ws = [] then [] else ws @ c # r)
            else ws @ c # takeWhile (\<lambda>x. x \<noteq> sep) r)"
proof (cases "c = sep")
  case True
  then show ?thesis using ws
    by (simp add: cfg_loader_strip_sep_eq takeWhile_shape[OF ws sep])
next
  case False
  show ?thesis
  proof (cases "sep \<in> set r")
    case True
    then show ?thesis using False c
      by (simp add: cfg_loader_strip_sep_eq takeWhile_shape[OF ws sep])
  next
    case False
    then show ?thesis using \<open>c \<noteq> sep\<close> 
      by (simp add: cfg_loader_strip_sep_eq takeWhile_shape[OF ws sep] takeWhile_absent)
  qed
qed

lemma strip_all_space: "\<forall>x\<in>set ws. is_space x \<Longrightarrow> py_strip ws = []"
  by (simp add: py_strip_Nil_iff)

lemma strip_Nil: "py_strip [] = []"
  by (simp add: py_strip_def py_lstrip_def py_rstrip_def)

lemma strip_nonspace: "\<not> is_space c \<Longrightarrow> py_strip (ws @ c # r) \<noteq> []"
  by (simp add: py_strip_Nil_iff)

lemma line_shape:
  "dropWhile is_space line = c # r \<Longrightarrow>
     line = takeWhile is_space line @ c # r \<and> (\<forall>x\<in>set (takeWhile is_space line). is_space x)
       \<and> \<not> is_space c"
  by (metis takeWhile_dropWhile_id set_takeWhileD hd_dropWhile list.sel(1) list.distinct(1))

lemma no_marker_in_spaces:
  "\<forall>x\<in>set line. is_space x \<Longrightarrow> CHR '';'' \<notin> set line \<and> CHR ''#'' \<notin> set line"
  using not_space_markers by blast

text \<open>
  Where the two copies of \<open>_strip_comment\<close> agree: on the lines that do not start with
  whitespace followed at once by a comment marker, and on no others.
\<close>

theorem strip_comment_copies_agree_iff:
  "cfg_loader_strip_comment line = config_strip_comment line \<longleftrightarrow> \<not> indented_marker line"
proof (cases "dropWhile is_space line")
  case Nil
  then have "\<forall>x\<in>set line. is_space x" by (simp add: dropWhile_eq_Nil_conv)
  then have "CHR '';'' \<notin> set line" "CHR ''#'' \<notin> set line"
    using no_marker_in_spaces by auto
  then show ?thesis unfolding indented_marker_def Nil
    by (simp add: cfg_loader_strip_comment_def config_strip_comment_def
        cfg_loader_strip_sep_def config_strip_sep_def)
next
  case (Cons c r)
  define ws where "ws = takeWhile is_space line"
  from line_shape[OF Cons] have line: "line = ws @ c # r" and ws: "\<forall>x\<in>set ws. is_space x"
    and c: "\<not> is_space c" by (simp_all add: ws_def)
  have im: "indented_marker line \<longleftrightarrow> is_marker c \<and> ws \<noteq> []"
    using Cons by (simp add: indented_marker_def ws_def)
  note im2 = im[unfolded line]
  note s1 = not_space_markers
  have cfg_nil: "\<And>sep. cfg_loader_strip_sep sep [] = []"
    by (simp add: cfg_loader_strip_sep_def)
  have cfg_ws: "\<And>sep. \<not> is_space sep \<Longrightarrow> config_strip_sep sep ws = ws"
    unfolding config_strip_sep_eq using ws by (intro takeWhile_absent) blast
  note L1 = loader_sep_shape[OF ws s1(1) c] and L2 = loader_sep_shape[OF ws s1(2) c]
  note C1 = config_sep_shape[OF ws s1(1)] and C2 = config_sep_shape[OF ws s1(2)]
  show ?thesis
  proof (cases "c = CHR '';''")
    case True
    show ?thesis
    proof (cases "ws = []")
      case True
      have "cfg_loader_strip_sep (CHR '';'') (ws @ c # r) = []"
        using True \<open>c = CHR '';''\<close> L1[of r] by simp
      then have l: "cfg_loader_strip_sep (CHR ''#'') (cfg_loader_strip_sep (CHR '';'') (ws @ c # r)) = []"
        by (simp add: cfg_nil)
      have "config_strip_sep (CHR '';'') (ws @ c # r) = []"
        using True \<open>c = CHR '';''\<close> C1[of c r] by simp
      then have r: "config_strip_sep (CHR ''#'') (config_strip_sep (CHR '';'') (ws @ c # r)) = []"
        by (simp add: config_strip_sep_eq)
      show ?thesis unfolding cfg_loader_strip_comment_def config_strip_comment_def line l r im2
        using True by simp
    next
      case False
      have a: "cfg_loader_strip_sep (CHR '';'') (ws @ c # r) = ws @ c # r"
        using False \<open>c = CHR '';''\<close> L1[of r] by simp
      have b: "cfg_loader_strip_sep (CHR ''#'') (ws @ c # r)
                 = ws @ c # takeWhile (\<lambda>x. x \<noteq> CHR ''#'') r"
        using \<open>c = CHR '';''\<close> L2[of r] by simp
      have l: "cfg_loader_strip_sep (CHR ''#'') (cfg_loader_strip_sep (CHR '';'') (ws @ c # r))
                 = ws @ c # takeWhile (\<lambda>x. x \<noteq> CHR ''#'') r"
        by (simp only: a b)
      have "config_strip_sep (CHR '';'') (ws @ c # r) = ws"
        using \<open>c = CHR '';''\<close> C1[of c r] by simp
      then have r: "config_strip_sep (CHR ''#'') (config_strip_sep (CHR '';'') (ws @ c # r)) = ws"
        by (simp only: cfg_ws[OF s1(2)])
      show ?thesis unfolding cfg_loader_strip_comment_def config_strip_comment_def line l r im2
        using False \<open>c = CHR '';''\<close> strip_nonspace[OF c, of ws] strip_all_space[OF ws]
        by (simp add: is_marker_def)
    qed
  next
    case False
    define r1 where "r1 = takeWhile (\<lambda>x. x \<noteq> CHR '';'') r"
    have a: "cfg_loader_strip_sep (CHR '';'') (ws @ c # r) = ws @ c # r1"
      using False L1[of r] by (simp add: r1_def)
    have a': "config_strip_sep (CHR '';'') (ws @ c # r) = ws @ c # r1"
      using False C1[of c r] by (simp add: r1_def)
    show ?thesis
    proof (cases "c = CHR ''#''")
      case True
      have b: "cfg_loader_strip_sep (CHR ''#'') (ws @ c # r1) = (if ws = [] then [] else ws @ c # r1)"
        using True L2[of r1] by simp
      have b': "config_strip_sep (CHR ''#'') (ws @ c # r1) = ws"
        using True C2[of c r1] by simp
      show ?thesis unfolding cfg_loader_strip_comment_def config_strip_comment_def line a a' b b' im2
        using True strip_nonspace[OF c, of ws] strip_all_space[OF ws]
        by (simp add: is_marker_def strip_Nil)
    next
      case False
      have b: "cfg_loader_strip_sep (CHR ''#'') (ws @ c # r1)
                 = ws @ c # takeWhile (\<lambda>x. x \<noteq> CHR ''#'') r1"
        using False L2[of r1] by simp
      have b': "config_strip_sep (CHR ''#'') (ws @ c # r1)
                 = ws @ c # takeWhile (\<lambda>x. x \<noteq> CHR ''#'') r1"
        using False C2[of c r1] by simp
      show ?thesis unfolding cfg_loader_strip_comment_def config_strip_comment_def line a a' b b' im2
        using False \<open>c \<noteq> CHR '';''\<close> by (simp add: is_marker_def)
    qed
  qed
qed

theorem strip_comment_copies_agree_witness:
  "cfg_loader_strip_comment ''port=5 # note'' = config_strip_comment ''port=5 # note''"
  using strip_comment_copies_agree_iff[of "''port=5 # note''"]
  by (simp add: indented_marker_def is_space_def)

text \<open>
  C10. The two copies differ on an indented comment line: \<open>utils/config.py\<close> cuts it at
  the marker, \<open>cfg_loader.py\<close> does not, since its guard lets a marker through when only
  whitespace precedes it.
\<close>

theorem strip_comment_copies_differ:
  "cfg_loader_strip_comment '' ; note'' = ''; note''
   \<and> config_strip_comment '' ; note'' = []
   \<and> cfg_loader_strip_comment '' ; note'' \<noteq> config_strip_comment '' ; note''"
  by code_simp

subsection \<open>Template expansion\<close>

lemma expand_template_append:
  "expand_template t (ps @ qs) = expand_template (expand_template t ps) qs"
  by (induction ps arbitrary: t) auto

lemma py_replace_at_match:
  assumes "old \<noteq> []"
  shows "py_replace (old @ rest) old new = new @ py_replace rest old new"
proof -
  obtain c cs where old: "old = c # cs" using assms by (cases old) auto
  have "py_startswith ((c # cs) @ rest) (c # cs)" by (simp add: py_startswith_def)
  then show ?thesis unfolding old by simp
qed

text \<open>
  C3 (amended). Expansion is one \<open>replace\<close> pass per placeholder, in the order of the
  dictionary. Within a pass the value put in for a token is not looked at again; a later
  pass works on the whole string that the earlier passes left, values included, so with
  the participant \<open>%r\<close> and the run \<open>01\<close> the template \<open>%p\<close> expands to \<open>01\<close>.
\<close>

theorem expand_template_one_pass_per_name:
  "expand_template t [] = t
   \<and> expand_template t (ps @ [(k, v)]) = py_replace (expand_template t ps) (CHR ''%'' # k) v
   \<and> py_replace ((CHR ''%'' # k) @ rest) (CHR ''%'' # k) v = v @ py_replace rest (CHR ''%'' # k) v
   \<and> expand_template ''%p'' [(''p'', ''%r''), (''r'', ''01'')] = ''01''"
proof -
  have a: "py_replace ((CHR ''%'' # k) @ rest) (CHR ''%'' # k) v = v @ py_replace rest (CHR ''%'' # k) v"
    by (rule py_replace_at_match) simp
  have b: "expand_template ''%p'' [(''p'', ''%r''), (''r'', ''01'')] = ''01''"
    by code_simp
  show ?thesis using a b by (simp add: expand_template_append)
qed

text \<open>
  The claim as stated fails: the line \<open>Participant=%r\<close> gives the participant \<open>%r\<close>, and
  the pass for \<open>r\<close>, which comes after the pass for \<open>p\<close>, expands it.
\<close>

theorem expand_template_rescans_substituted_value:
  "parse_cfg_file [''Participant=%r''] = [(''Participant'', CStr ''%r'')]
   \<and> expand_template ''%p'' (placeholders plain_env [(''Participant'', CStr ''%r'')]) = ''01''
   \<and> expand_template ''%p'' (placeholders plain_env [(''Participant'', CStr ''%r'')]) \<noteq> ''%r''"
  by code_simp

subsection \<open>Quoted lists\<close>

text \<open>
  C4 (amended). A value text that holds a double quote is split at the commas and every
  item is stripped of whitespace. An item of at least two characters that starts and
  ends with a double quote loses exactly that pair. Any other item loses every double
  quote and then every single quote at either end, whether or not the other end has
  one. One item gives a string, several give a list.
\<close>

theorem parse_value_quoted:
  assumes "dquote \<in> set (py_strip raw)"
  shows "parse_value raw =
           (let cleaned = map (\<lambda>item. parse_item (py_strip item))
                            (py_split (CHR '','') (py_strip raw))
            in if length cleaned = 1 then CStr (hd cleaned) else CList cleaned)
         \<and> parse_item (dquote # mid @ [dquote]) = mid
         \<and> (\<not> (py_startswith item [dquote] \<and> py_endswith item [dquote] \<and> 2 \<le> length item)
              \<longrightarrow> parse_item item = py_strip_chars [squote] (py_strip_chars [dquote] item))"
proof -
  have ne: "py_strip raw \<noteq> []" using assms by auto
  have a: "parse_item (dquote # mid @ [dquote]) = mid"
    by (simp add: parse_item_def py_startswith_def py_endswith_def)
  have b: "\<not> (py_startswith item [dquote] \<and> py_endswith item [dquote] \<and> 2 \<le> length item)
              \<longrightarrow> parse_item item = py_strip_chars [squote] (py_strip_chars [dquote] item)"
    by (simp add: parse_item_def)
  have c: "parse_value raw =
           (let cleaned = map (\<lambda>item. parse_item (py_strip item))
                            (py_split (CHR '','') (py_strip raw))
            in if length cleaned = 1 then CStr (hd cleaned) else CList cleaned)"
    using ne assms by (simp add: parse_value_def Let_def)
  show ?thesis using a b c by blast
qed

theorem parse_value_quoted_witness:
  "parse_value ([dquote] @ ''solo'' @ [dquote]) = CStr ''solo''
   \<and> parse_value ([dquote] @ ''a'' @ [dquote] @ '', '' @ [dquote] @ ''b'' @ [dquote])
       = CList [''a'', ''b'']"
proof -
  have h1: "dquote \<in> set (py_strip ([dquote] @ ''solo'' @ [dquote]))" by code_simp
  have h2: "dquote \<in> set (py_strip ([dquote] @ ''a'' @ [dquote] @ '', '' @ [dquote] @ ''b'' @ [dquote]))"
    by code_simp
  have e1: "(let cleaned = map (\<lambda>item. parse_item (py_strip item))
                            (py_split (CHR '','') (py_strip ([dquote] @ ''solo'' @ [dquote])))
            in if length cleaned = 1 then CStr (hd cleaned) else CList cleaned) = CStr ''solo''"
    by code_simp
  have e2: "(let cleaned = map (\<lambda>item. parse_item (py_strip item))
                            (py_split (CHR '','') (py_strip ([dquote] @ ''a'' @ [dquote] @ '', '' @ [dquote] @ ''b'' @ [dquote])))
            in if length cleaned = 1 then CStr (hd cleaned) else CList cleaned) = CList [''a'', ''b'']"
    by code_simp
  show ?thesis
    using parse_value_quoted[OF h1, of "[]" "[]"] parse_value_quoted[OF h2, of "[]" "[]"] e1 e2
    by simp
qed

text \<open>
  The claim as stated fails: a quote at one end only is removed, and so are two layers
  of single quotes.
\<close>

theorem parse_value_strips_unpaired_quotes:
  "parse_value (dquote # ''a'') = CStr ''a''
   \<and> parse_value ([dquote] @ ''x'' @ [dquote] @ '', '' @ [squote, squote] @ ''b'' @ [squote, squote])
       = CList [''x'', ''b'']"
  by code_simp

subsection \<open>The path sanitizer\<close>

lemma rstrip_chars_subset: "set (py_rstrip_chars chars s) \<subseteq> set s"
proof -
  have "set (dropWhile (\<lambda>c. c \<in> set chars) (rev s)) \<subseteq> set (rev s)"
    by (rule set_dropWhileD[THEN subsetI]) 
  then show ?thesis by (simp add: py_rstrip_chars_def)
qed

lemma rstrip_chars_prefix: "take (length (py_rstrip_chars chars s)) s = py_rstrip_chars chars s"
proof -
  have "rev s = takeWhile (\<lambda>c. c \<in> set chars) (rev s) @ dropWhile (\<lambda>c. c \<in> set chars) (rev s)"
    by simp
  then have "s = rev (dropWhile (\<lambda>c. c \<in> set chars) (rev s)) @ rev (takeWhile (\<lambda>c. c \<in> set chars) (rev s))"
    by (metis rev_append rev_rev_ident)
  then have "s = py_rstrip_chars chars s @ rev (takeWhile (\<lambda>c. c \<in> set chars) (rev s))"
    by (simp add: py_rstrip_chars_def)
  then show ?thesis by (metis append_eq_conv_conj)
qed

lemma no_slash_in_sanitized: "CHR ''/'' \<notin> set (sanitize_basename name)"
proof -
  have "CHR ''/'' \<notin> set (map (\<lambda>c. if c \<in> set invalid_chars then CHR ''-'' else c) name)"
    by (auto simp: invalid_chars_def)
  then show ?thesis unfolding sanitize_basename_def using rstrip_chars_subset by blast
qed

lemma path_join_no_slash:
  assumes "CHR ''/'' \<notin> set b"
  shows "path_join a b = a @ (if a = [] \<or> last a = CHR ''/'' then [] else ''/'') @ b"
proof -
  have "\<not> py_startswith b ''/''" using assms by (cases b) (auto simp: py_startswith_def)
  moreover have "py_endswith a ''/'' \<longleftrightarrow> a \<noteq> [] \<and> last a = CHR ''/''"
  proof (cases a rule: rev_cases)
    case Nil
    then show ?thesis by (simp add: py_endswith_def)
  next
    case (snoc xs x)
    then show ?thesis by (auto simp: py_endswith_def)
  qed
  ultimately show ?thesis by (auto simp: path_join_def)
qed

lemma prefix_of_prefix:
  assumes "take (length r) q = r" "take (length q) p = q"
  shows "take (length r) p = r"
proof -
  have "length (take (length r) q) = length r" using assms(1) by simp
  then have "length r \<le> length q" by simp
  then have "take (length r) (take (length q) p) = take (length r) p" by (simp add: min_def)
  then show ?thesis using assms by simp
qed

lemma path_split_head_prefix: "take (length (fst (path_split p))) p = fst (path_split p)"
proof -
  define i where "i = length p - length (takeWhile (\<lambda>c. c \<noteq> CHR ''/'') (rev p))"
  have b: "take (length (take i p)) p = take i p" by (simp add: min_def)
  have a: "take (length (py_rstrip_chars ''/'' (take i p))) p = py_rstrip_chars ''/'' (take i p)"
    using rstrip_chars_prefix[of "''/''" "take i p"] b by (rule prefix_of_prefix)
  show ?thesis using a b by (simp add: path_split_def Let_def i_def[symmetric])
qed

text \<open>
  C9. The result is the directory part that \<open>os.path.split\<close> gives, unchanged, then a
  slash where the join needs one, then the sanitized base name. The directory part is a
  prefix of the input and of the result. In the base name every character of
  \<open><>:"/\|?*\<close> becomes a hyphen, and the blanks and dots at the end are dropped.
\<close>

theorem sanitize_path_keeps_directory:
  "sanitize_path dest =
     fst (path_split dest)
       @ (if fst (path_split dest) = [] \<or> last (fst (path_split dest)) = CHR ''/'' then [] else ''/'')
       @ sanitize_basename (snd (path_split dest))
   \<and> take (length (fst (path_split dest))) dest = fst (path_split dest)
   \<and> take (length (fst (path_split dest))) (sanitize_path dest) = fst (path_split dest)
   \<and> sanitize_basename name =
       rev (dropWhile (\<lambda>c. c = CHR '' '' \<or> c = CHR ''.'')
         (rev (map (\<lambda>c. if c \<in> {CHR ''<'', CHR ''>'', CHR '':'', CHR 0x22, CHR ''/'', CHR 0x5C,
                                  CHR ''|'', CHR ''?'', CHR ''*''} then CHR ''-'' else c) name)))
   \<and> sanitize_basename ''a:b?c.xdf'' = ''a-b-c.xdf''
   \<and> sanitize_basename ''name. '' = ''name''"
proof -
  have j: "sanitize_path dest =
     fst (path_split dest)
       @ (if fst (path_split dest) = [] \<or> last (fst (path_split dest)) = CHR ''/'' then [] else ''/'')
       @ sanitize_basename (snd (path_split dest))"
    by (simp add: sanitize_path_def split_beta path_join_no_slash[OF no_slash_in_sanitized])
  have k: "take (length (fst (path_split dest))) (sanitize_path dest) = fst (path_split dest)"
    unfolding j by simp
  have m: "sanitize_basename name =
       rev (dropWhile (\<lambda>c. c = CHR '' '' \<or> c = CHR ''.'')
         (rev (map (\<lambda>c. if c \<in> {CHR ''<'', CHR ''>'', CHR '':'', CHR 0x22, CHR ''/'', CHR 0x5C,
                                  CHR ''|'', CHR ''?'', CHR ''*''} then CHR ''-'' else c) name)))"
    by (simp add: sanitize_basename_def py_rstrip_chars_def invalid_chars_def)
  have e1: "sanitize_basename ''a:b?c.xdf'' = ''a-b-c.xdf''" by code_simp
  have e2: "sanitize_basename ''name. '' = ''name''" by code_simp
  show ?thesis using j k m e1 e2 path_split_head_prefix[of dest] by blast
qed

theorem sanitize_path_keeps_directory_witness:
  "sanitize_path ''/data/run 1/a:b?c.xdf'' = ''/data/run 1/a-b-c.xdf''
   \<and> fst (path_split ''/data/run 1/a:b?c.xdf'') = ''/data/run 1''"
  using sanitize_path_keeps_directory[of "''/data/run 1/a:b?c.xdf''" "[]"]
  by code_simp

subsection \<open>The fallback order\<close>

text \<open>
  C2 (amended). The five branches in their order, for \<open>build_filename_from_cfg\<close> and for
  \<open>Config._load_from_cfg\<close>. A field is read as \<open>str(cfg.get(key) or '').strip()\<close>: it is
  empty when the key is absent, when its value is false (the empty string, the integer
  0) and when its text is blank. The five cases cover every dictionary. The last branch
  is the constant \<open>recording.xdf\<close> in \<open>cfg_loader.py\<close> and the stored filename in
  \<open>utils/config.py\<close>.
\<close>

theorem filename_fallback_order:
  "(cfg_field env cfg ''StorageLocation'' \<noteq> [] \<longrightarrow>
      choose_dest env cfg
        = expand_template (cfg_field env cfg ''StorageLocation'') (placeholders env cfg)
      \<and> config_choose_dest env cfg stored = PStr (choose_dest env cfg))
   \<and> (cfg_field env cfg ''StorageLocation'' = [] \<and> cfg_field env cfg ''StudyRoot'' \<noteq> []
        \<and> cfg_field env cfg ''PathTemplate'' \<noteq> [] \<longrightarrow>
      choose_dest env cfg
        = path_join (cfg_field env cfg ''StudyRoot'')
            (expand_template (cfg_field env cfg ''PathTemplate'') (placeholders env cfg))
      \<and> config_choose_dest env cfg stored = PStr (choose_dest env cfg))
   \<and> (cfg_field env cfg ''StorageLocation'' = [] \<and> cfg_field env cfg ''StudyRoot'' \<noteq> []
        \<and> cfg_field env cfg ''PathTemplate'' = [] \<longrightarrow>
      choose_dest env cfg
        = path_join (cfg_field env cfg ''StudyRoot'')
            (''LabRecorder_'' @ hostname env @ ''_'' @ datetime_token env @ ''_eeg.xdf'')
      \<and> config_choose_dest env cfg stored = PStr (choose_dest env cfg))
   \<and> (cfg_field env cfg ''StorageLocation'' = [] \<and> cfg_field env cfg ''StudyRoot'' = []
        \<and> cfg_field env cfg ''PathTemplate'' \<noteq> [] \<longrightarrow>
      choose_dest env cfg
        = expand_template (cfg_field env cfg ''PathTemplate'') (placeholders env cfg)
      \<and> config_choose_dest env cfg stored = PStr (choose_dest env cfg))
   \<and> (cfg_field env cfg ''StorageLocation'' = [] \<and> cfg_field env cfg ''StudyRoot'' = []
        \<and> cfg_field env cfg ''PathTemplate'' = [] \<longrightarrow>
      choose_dest env cfg = ''recording.xdf'' \<and> config_choose_dest env cfg stored = stored)
   \<and> (map_of cfg key = None \<longrightarrow> cfg_field env cfg key = [])
   \<and> (map_of cfg key = Some (CStr s) \<longrightarrow> cfg_field env cfg key = py_strip s)
   \<and> (map_of cfg key = Some (CInt i) \<longrightarrow>
        cfg_field env cfg key = (if i = 0 then [] else py_strip (str_of_int i)))
   \<and> build_filename_from_cfg env cfg = finish_dest env (choose_dest env cfg)"
proof -
  have a: "map_of cfg key = None \<longrightarrow> cfg_field env cfg key = []"
    by (simp add: cfg_field_def cfg_str_or_def py_strip_def py_lstrip_def py_rstrip_def)
  have b: "map_of cfg key = Some (CStr s) \<longrightarrow> cfg_field env cfg key = py_strip s"
    by (simp add: cfg_field_def cfg_str_or_def py_strip_def py_lstrip_def py_rstrip_def)
  have c: "map_of cfg key = Some (CInt i) \<longrightarrow>
        cfg_field env cfg key = (if i = 0 then [] else py_strip (str_of_int i))"
    by (simp add: cfg_field_def cfg_str_or_def py_strip_def py_lstrip_def py_rstrip_def)
  show ?thesis using a b c
    by (simp add: choose_dest_def config_choose_dest_def build_filename_from_cfg_def Let_def)
qed

theorem filename_fallback_order_witness:
  "choose_dest plain_env
      [(''StorageLocation'', CStr ''%hostname.xdf''), (''StudyRoot'', CStr ''/data''),
       (''PathTemplate'', CStr ''sub-%p/run-%r'')] = ''lab1.xdf''
   \<and> choose_dest plain_env [(''StudyRoot'', CStr ''/data''), (''PathTemplate'', CStr ''sub-%p/run-%r'')]
       = ''/data/sub-P001/run-01''
   \<and> choose_dest plain_env [(''StudyRoot'', CStr ''/data'')]
       = ''/data/LabRecorder_lab1_2024-01-02T030405.006Z_eeg.xdf''
   \<and> choose_dest plain_env [(''PathTemplate'', CStr ''sub-%p/run-%r'')] = ''sub-P001/run-01''
   \<and> choose_dest plain_env [] = ''recording.xdf''
   \<and> config_choose_dest plain_env [] (PStr ''kept.xdf'') = PStr ''kept.xdf''"
  using filename_fallback_order[of plain_env
      "[(''StorageLocation'', CStr ''%hostname.xdf''), (''StudyRoot'', CStr ''/data''),
        (''PathTemplate'', CStr ''sub-%p/run-%r'')]" PNone "''StudyRoot''" "''/data''" 0]
  by code_simp

text \<open>
  The claim as stated fails: the line \<open>StorageLocation=0\<close> gives the integer 0, which
  \<open>cfg.get('StorageLocation') or ''\<close> turns into the empty string, and a storage location
  that is one blank is stripped to nothing; in both cases the branch for \<open>StudyRoot\<close> is
  taken although a storage location is present.
\<close>

theorem filename_fallback_skips_zero_and_blank:
  "parse_cfg_file [''StorageLocation=0'', ''StudyRoot=/data'']
     = [(''StorageLocation'', CInt 0), (''StudyRoot'', CStr ''/data'')]
   \<and> choose_dest plain_env [(''StorageLocation'', CInt 0), (''StudyRoot'', CStr ''/data'')]
       = ''/data/LabRecorder_lab1_2024-01-02T030405.006Z_eeg.xdf''
   \<and> config_choose_dest plain_env [(''StorageLocation'', CInt 0), (''StudyRoot'', CStr ''/data'')]
         (PStr ''recording.xdf'')
       = PStr ''/data/LabRecorder_lab1_2024-01-02T030405.006Z_eeg.xdf''
   \<and> choose_dest plain_env [(''StorageLocation'', CStr '' ''), (''StudyRoot'', CStr ''/data'')]
       = ''/data/LabRecorder_lab1_2024-01-02T030405.006Z_eeg.xdf''
   \<and> expand_template ''0'' (placeholders plain_env
         [(''StorageLocation'', CInt 0), (''StudyRoot'', CStr ''/data'')]) = ''0''"
  by code_simp

subsection \<open>Reading the store\<close>

lemma py_split_not_Nil: "py_split sep s \<noteq> []"
  by (induction s) (auto split: list.splits)

lemma get_walk_lookup:
  "get_walk h v ks =
     (case lookup_path h v ks of
        Some x \<Rightarrow> Inr x
      | None \<Rightarrow> get_walk h v ks)
   \<and> (lookup_path h v ks = None \<longrightarrow>
        get_walk h v ks = Inl KeyError \<or> get_walk h v ks = Inl TypeError)"
  by (induction h v ks rule: lookup_path.induct) (auto split: option.splits)

text \<open>
  C7. \<open>get\<close> always returns a value: what the walk of the dot path finds, or the default
  when a segment is missing or the value at hand is not a mapping. With \<open>remote_control\<close>
  absent or not a mapping, \<open>get("remote_control.port", 9999)\<close> is 9999.
\<close>

theorem Config_get_never_raises:
  "Config_get h self key dflt =
     Inr (case lookup_path h (PDict (config self)) (py_split (CHR ''.'') key) of
            None \<Rightarrow> dflt
          | Some v \<Rightarrow> v)
   \<and> ((case map_of (objs h (config self)) ''remote_control'' of
          None \<Rightarrow> True
        | Some v \<Rightarrow> \<not> is_mapping v) \<longrightarrow>
       Config_get h self ''remote_control.port'' (PInt 9999) = Inr (PInt 9999))"
proof -
  have a: "\<And>key dflt. Config_get h self key dflt =
     Inr (case lookup_path h (PDict (config self)) (py_split (CHR ''.'') key) of
            None \<Rightarrow> dflt
          | Some v \<Rightarrow> v)"
  proof -
    fix key dflt
    show "Config_get h self key dflt =
     Inr (case lookup_path h (PDict (config self)) (py_split (CHR ''.'') key) of
            None \<Rightarrow> dflt
          | Some v \<Rightarrow> v)"
    proof (cases "lookup_path h (PDict (config self)) (py_split (CHR ''.'') key)")
      case None
      then show ?thesis
        using get_walk_lookup[of h "PDict (config self)" "py_split (CHR ''.'') key"]
        by (auto simp: Config_get_def)
    next
      case (Some x)
      then show ?thesis
        using get_walk_lookup[of h "PDict (config self)" "py_split (CHR ''.'') key"]
        by (simp add: Config_get_def)
    qed
  qed
  have s: "py_split (CHR ''.'') ''remote_control.port'' = [''remote_control'', ''port'']"
    by code_simp
  have b: "(case map_of (objs h (config self)) ''remote_control'' of
          None \<Rightarrow> True
        | Some v \<Rightarrow> \<not> is_mapping v) \<longrightarrow>
       Config_get h self ''remote_control.port'' (PInt 9999) = Inr (PInt 9999)"
    unfolding a s
    by (cases "map_of (objs h (config self)) ''remote_control''")
       (auto elim: is_mapping.elims split: option.splits pval.splits)
  show ?thesis using a b by blast
qed

theorem Config_get_never_raises_witness:
  "Config_get first_heap first_config ''remote_control.port'' (PInt 9999) = Inr (PInt 22345)
   \<and> Config_get (snd (Config_set first_heap first_config ''remote_control'' (PInt 5)))
        first_config ''remote_control.port'' (PInt 9999) = Inr (PInt 9999)
   \<and> Config_get (snd (Config_set first_heap first_config ''remote_control'' (PInt 5)))
        first_config ''no.such.key'' PNone = Inr PNone"
  using Config_get_never_raises[of
      "snd (Config_set first_heap first_config ''remote_control'' (PInt 5))" first_config
      "''no.such.key''" PNone]
  by code_simp

subsection \<open>Writing the store\<close>

lemma set_from_one:
  "set_from h v [k] x =
     (case py_setitem h v k x of Inl e \<Rightarrow> (Some e, h) | Inr h2 \<Rightarrow> (None, h2))"
  by (simp add: set_from_def)

lemma set_from_step:
  "set_from h v (k # k' # ks) x =
     (case py_contains h v k of
        Inl e \<Rightarrow> (Some e, h)
      | Inr True \<Rightarrow>
          (case py_getitem h v k of
             Inl e \<Rightarrow> (Some e, h)
           | Inr c \<Rightarrow> set_from h c (k' # ks) x)
      | Inr False \<Rightarrow>
          (case py_setitem (fst (alloc h [])) v k (PDict (snd (alloc h []))) of
             Inl e \<Rightarrow> (Some e, fst (alloc h []))
           | Inr h2 \<Rightarrow>
               (case py_getitem h2 v k of
                  Inl e \<Rightarrow> (Some e, h2)
                | Inr c \<Rightarrow> set_from h2 c (k' # ks) x)))"
proof -
  define B where "B = butlast (k' # ks)"
  define L where "L = last (k' # ks)"
  have b: "butlast (k # k' # ks) = k # B" by (simp add: B_def)
  have l: "last (k # k' # ks) = L" by (simp add: L_def)
  have f: "\<And>h c. set_from h c (k' # ks) x =
     (case set_walk h c B of
        (Inl e, h1) \<Rightarrow> (Some e, h1)
      | (Inr conf, h1) \<Rightarrow>
          (case py_setitem h1 conf L x of
             Inl e \<Rightarrow> (Some e, h1)
           | Inr h2 \<Rightarrow> (None, h2)))"
    unfolding set_from_def B_def L_def ..
  show ?thesis unfolding set_from_def[of h v] b l f
    by (simp split: sum.splits bool.splits)
qed

lemma set_from_dict_present:
  "map_of (objs h a) k = Some c \<Longrightarrow>
     set_from h (PDict a) (k # k' # ks) x = set_from h c (k' # ks) x"
  by (simp add: set_from_step)

lemma map_of_update_same: "map_of (AList.update k v d) k = Some v"
  by (simp add: update_conv')

lemma map_of_update_other: "k' \<noteq> k \<Longrightarrow> map_of (AList.update k v d) k' = map_of d k'"
  by (simp add: update_conv')

lemma set_from_dict_absent:
  "map_of (objs h a) k = None \<Longrightarrow>
     set_from h (PDict a) (k # k' # ks) x = set_from (grown h a k) (PDict (fresh h)) (k' # ks) x"
  by (simp add: set_from_step grown_def alloc_def map_of_update_same)

lemma set_from_not_dict:
  "\<not> is_mapping v \<Longrightarrow>
     set_from h v (k # ks) x = (Some TypeError, h)
     \<or> set_from h v (k # ks) x = (Some TypeError, fst (alloc h []))"
  by (cases v; cases ks) (auto simp: set_from_step set_from_one split: bool.splits)

lemma grown_fresh: "fresh (grown h a k) = Suc (fresh h)"
  by (simp add: grown_def alloc_def)

lemma grown_new_dict:
  "map_of (objs (grown h a k) (fresh h)) k' = Some v \<Longrightarrow> v = PDict (fresh h)"
  by (auto simp: grown_def alloc_def update_conv' split: if_splits)

lemma grown_new_dict_empty: "a \<noteq> fresh h \<Longrightarrow> objs (grown h a k) (fresh h) = []"
  by (simp add: grown_def alloc_def)

lemma grown_old:
  "b \<noteq> fresh h \<Longrightarrow> (b, key) \<noteq> (a, k) \<Longrightarrow>
     map_of (objs (grown h a k) b) key = map_of (objs h b) key"
  by (auto simp: grown_def alloc_def update_conv')

lemma grown_link: "a \<noteq> fresh h \<Longrightarrow> map_of (objs (grown h a k) a) k = Some (PDict (fresh h))"
  by (simp add: grown_def alloc_def map_of_update_same)

lemma assignable_loop:
  assumes "\<And>k v. map_of (objs h n) k = Some v \<Longrightarrow> v = PDict n"
  shows "assignable h (PDict n) ks"
proof (induction ks)
  case Nil
  then show ?case by simp
next
  case (Cons k ks)
  show ?case
  proof (cases ks)
    case Nil
    then show ?thesis by simp
  next
    case (Cons k' ks')
    then show ?thesis using Cons.IH assms by (auto split: option.splits)
  qed
qed

lemma trail_loop:
  assumes "\<And>k v. map_of (objs h n) k = Some v \<Longrightarrow> v = PDict n"
  shows "fst ` set (trail h (PDict n) ks) \<subseteq> {n}"
proof (induction ks)
  case Nil
  then show ?case by simp
next
  case (Cons k ks)
  show ?case
  proof (cases "map_of (objs h n) k")
    case None
    then show ?thesis by simp
  next
    case (Some v)
    then have "v = PDict n" using assms by blast
    then show ?thesis using Cons.IH Some by simp
  qed
qed

lemma set_from_error:
  "ks \<noteq> [] \<Longrightarrow>
     fst (set_from h v ks x) = (if assignable h v ks then None else Some TypeError)"
proof (induction ks arbitrary: h v)
  case Nil
  then show ?case by simp
next
  case (Cons k ks)
  show ?case
  proof (cases "is_mapping v")
    case False
    then have "\<not> assignable h v (k # ks)" by (cases v) auto
    then show ?thesis using set_from_not_dict[OF False, of h k ks x] by auto
  next
    case True
    then obtain a where v: "v = PDict a" by (cases v) auto
    show ?thesis
    proof (cases ks)
      case Nil
      then show ?thesis by (simp add: v set_from_one)
    next
      case (Cons k' ks')
      show ?thesis
      proof (cases "map_of (objs h a) k")
        case None
        have "assignable (grown h a k) (PDict (fresh h)) (k' # ks')"
          by (rule assignable_loop) (rule grown_new_dict)
        then show ?thesis
          using Cons.IH[of "grown h a k" "PDict (fresh h)"] None
          by (simp add: v Cons set_from_dict_absent)
      next
        case (Some c)
        then show ?thesis using Cons.IH[of h c] by (simp add: v Cons set_from_dict_present)
      qed
    qed
  qed
qed

lemma set_from_failure_heap:
  "ks \<noteq> [] \<Longrightarrow> \<not> assignable h v ks \<Longrightarrow>
     snd (set_from h v ks x) = h \<or> snd (set_from h v ks x) = fst (alloc h [])"
proof (induction ks arbitrary: v)
  case Nil
  then show ?case by simp
next
  case (Cons k ks)
  show ?case
  proof (cases "is_mapping v")
    case False
    then show ?thesis using set_from_not_dict[OF False, of h k ks x] by auto
  next
    case True
    then obtain a where v: "v = PDict a" by (cases v) auto
    show ?thesis
    proof (cases ks)
      case Nil
      then show ?thesis using Cons.prems by (simp add: v)
    next
      case (Cons k' ks')
      show ?thesis
      proof (cases "map_of (objs h a) k")
        case None
        then show ?thesis using Cons.prems by (simp add: v Cons)
      next
        case (Some c)
        then show ?thesis using Cons.IH[of c] Cons.prems
          by (simp add: v Cons set_from_dict_present)
      qed
    qed
  qed
qed

lemma alloc_old: "b \<noteq> fresh h \<Longrightarrow> objs (fst (alloc h d)) b = objs h b"
  by (simp add: alloc_def)

lemma set_from_frame:
  "ks \<noteq> [] \<Longrightarrow> (b, key) \<notin> set (trail h v ks) \<Longrightarrow> b < fresh h \<Longrightarrow>
     map_of (objs (snd (set_from h v ks x)) b) key = map_of (objs h b) key"
proof (induction ks arbitrary: h v)
  case Nil
  then show ?case by simp
next
  case (Cons k ks)
  show ?case
  proof (cases "is_mapping v")
    case False
    then show ?thesis
      using set_from_not_dict[OF False, of h k ks x] Cons.prems(3) by (auto simp: alloc_old)
  next
    case True
    then obtain a where v: "v = PDict a" by (cases v) auto
    have ne: "(b, key) \<noteq> (a, k)" using Cons.prems(2) by (auto simp: v)
    show ?thesis
    proof (cases ks)
      case Nil
      then show ?thesis using ne by (auto simp: v set_from_one update_conv')
    next
      case (Cons k' ks')
      show ?thesis
      proof (cases "map_of (objs h a) k")
        case None
        have "fst ` set (trail (grown h a k) (PDict (fresh h)) (k' # ks')) \<subseteq> {fresh h}"
          by (rule trail_loop) (rule grown_new_dict)
        then have nt: "(b, key) \<notin> set (trail (grown h a k) (PDict (fresh h)) (k' # ks'))"
          using Cons.prems(3) by force
        have "map_of (objs (snd (set_from (grown h a k) (PDict (fresh h)) (k' # ks') x)) b) key
                = map_of (objs (grown h a k) b) key"
          using Cons.IH[of "grown h a k" "PDict (fresh h)"] nt Cons.prems(3)
          by (simp add: Cons grown_fresh)
        also have "\<dots> = map_of (objs h b) key"
          using Cons.prems(3) ne by (intro grown_old) auto
        finally show ?thesis using None by (simp add: v Cons set_from_dict_absent)
      next
        case (Some c)
        then show ?thesis using Cons.IH[of h c] Cons.prems
          by (simp add: v Cons set_from_dict_present)
      qed
    qed
  qed
qed

lemma get_after_set_from:
  "ks \<noteq> [] \<Longrightarrow> assignable h v ks \<Longrightarrow> distinct (trail h v ks) \<Longrightarrow>
     list_all (\<lambda>p. fst p < fresh h) (trail h v ks) \<Longrightarrow>
     get_walk (snd (set_from h v ks x)) v ks = Inr x"
proof (induction ks arbitrary: h v)
  case Nil
  then show ?case by simp
next
  case (Cons k ks)
  from Cons.prems(2) obtain a where v: "v = PDict a" by (cases v) auto
  have a: "a < fresh h" using Cons.prems(4) by (simp add: v)
  show ?case
  proof (cases ks)
    case Nil
    then show ?thesis by (simp add: v set_from_one map_of_update_same)
  next
    case (Cons k' ks')
    show ?thesis
    proof (cases "map_of (objs h a) k")
      case None
      define g where "g = grown h a k"
      define h' where "h' = snd (set_from g (PDict (fresh h)) (k' # ks') x)"
      have e: "objs g (fresh h) = []" unfolding g_def using a by (intro grown_new_dict_empty) simp
      have t: "trail g (PDict (fresh h)) (k' # ks') = [(fresh h, k')]" by (simp add: e)
      have asg: "assignable g (PDict (fresh h)) (k' # ks')"
        unfolding g_def by (rule assignable_loop) (rule grown_new_dict)
      have d: "distinct (trail g (PDict (fresh h)) (k' # ks'))" unfolding t by simp
      have b: "list_all (\<lambda>p. fst p < fresh g) (trail g (PDict (fresh h)) (k' # ks'))"
        unfolding t by (simp add: g_def grown_fresh)
      have ih: "get_walk h' (PDict (fresh h)) (k' # ks') = Inr x"
        unfolding h'_def by (rule Cons.IH[unfolded Cons, OF _ asg d b]) simp
      have "map_of (objs h' a) k = map_of (objs g a) k"
        unfolding h'_def using a t
        by (intro set_from_frame) (auto simp: g_def grown_fresh)
      also have "\<dots> = Some (PDict (fresh h))"
        unfolding g_def using a by (intro grown_link) simp
      finally have link: "map_of (objs h' a) k = Some (PDict (fresh h))" .
      have "set_from h v (k # ks) x = set_from g (PDict (fresh h)) (k' # ks') x"
        using None by (simp add: v Cons set_from_dict_absent g_def)
      then show ?thesis using ih link by (simp add: v Cons h'_def)
    next
      case (Some c)
      define h' where "h' = snd (set_from h c (k' # ks') x)"
      have asg: "assignable h c (k' # ks')"
        using Cons.prems(2) Some by (simp add: v Cons)
      have d: "distinct (trail h c (k' # ks'))"
        using Cons.prems(3) Some by (simp add: v Cons)
      have b: "list_all (\<lambda>p. fst p < fresh h) (trail h c (k' # ks'))"
        using Cons.prems(4) Some by (simp add: v Cons)
      have ih: "get_walk h' c (k' # ks') = Inr x"
        unfolding h'_def by (rule Cons.IH[unfolded Cons, OF _ asg d b]) simp
      have nt: "(a, k) \<notin> set (trail h c (k' # ks'))"
        using Cons.prems(3) Some by (simp add: v Cons)
      have "map_of (objs h' a) k = map_of (objs h a) k"
        unfolding h'_def using nt a by (intro set_from_frame) auto
      then have link: "map_of (objs h' a) k = Some c" using Some by simp
      have "set_from h v (k # ks) x = set_from h c (k' # ks') x"
        using Some by (simp add: v Cons set_from_dict_present)
      then show ?thesis using ih link by (simp add: v Cons h'_def)
    qed
  qed
qed

lemma Config_set_set_from:
  "Config_set h self key x = set_from h (PDict (config self)) (py_split (CHR ''.'') key) x"
  by (simp add: Config_set_def set_from_def Let_def)

text \<open>
  C5 (amended). \<open>set\<close> succeeds exactly when every segment before the last is absent or
  is reached through mappings only; otherwise it raises \<open>TypeError\<close>, and the store is as
  before (at most one new empty dictionary, which nothing refers to, has been made).
  After a successful \<open>set\<close>, \<open>get\<close> of the same path returns the value, provided the walk
  uses no dictionary entry twice and meets only allocated dictionaries (as in any store
  that is a tree).
\<close>

theorem Config_set_outcome:
  "fst (Config_set h self key x)
     = (if assignable h (PDict (config self)) (py_split (CHR ''.'') key) then None
        else Some TypeError)
   \<and> (\<not> assignable h (PDict (config self)) (py_split (CHR ''.'') key) \<longrightarrow>
        snd (Config_set h self key x) = h \<or> snd (Config_set h self key x) = fst (alloc h []))
   \<and> (assignable h (PDict (config self)) (py_split (CHR ''.'') key)
        \<and> distinct (trail h (PDict (config self)) (py_split (CHR ''.'') key))
        \<and> list_all (\<lambda>p. fst p < fresh h) (trail h (PDict (config self)) (py_split (CHR ''.'') key))
        \<longrightarrow> Config_get (snd (Config_set h self key x)) self key dflt = Inr x)"
  using set_from_error[OF py_split_not_Nil, of h "PDict (config self)" "CHR ''.''" key x]
    set_from_failure_heap[OF py_split_not_Nil, of h "PDict (config self)" "CHR ''.''" key x]
    get_after_set_from[OF py_split_not_Nil, of h "PDict (config self)" "CHR ''.''" key x]
  by (simp add: Config_set_set_from Config_get_def)

theorem Config_set_outcome_witness:
  "fst (Config_set first_heap first_config ''a.b.c'' (PInt 1)) = None
   \<and> Config_get (snd (Config_set first_heap first_config ''a.b.c'' (PInt 1))) first_config
        ''a.b.c'' PNone = Inr (PInt 1)"
proof -
  have a: "assignable first_heap (PDict (config first_config)) (py_split (CHR ''.'') ''a.b.c'')"
    by code_simp
  have d: "distinct (trail first_heap (PDict (config first_config)) (py_split (CHR ''.'') ''a.b.c''))"
    by code_simp
  have b: "list_all (\<lambda>p. fst p < fresh first_heap)
             (trail first_heap (PDict (config first_config)) (py_split (CHR ''.'') ''a.b.c''))"
    by code_simp
  show ?thesis
    using Config_set_outcome[of first_heap first_config "''a.b.c''" "PInt 1" PNone] a d b
    by simp
qed

text \<open>
  The claim as stated fails: on a new instance \<open>remote_control.port\<close> holds an integer,
  and \<open>set("remote_control.port.x", 1)\<close> raises \<open>TypeError\<close>.
\<close>

theorem Config_set_raises_on_scalar_segment:
  "Config_get first_heap first_config ''remote_control.port'' PNone = Inr (PInt 22345)
   \<and> fst (Config_set first_heap first_config ''remote_control.port.x'' (PInt 1)) = Some TypeError"
  by code_simp

subsection \<open>Instances and the shared defaults\<close>

text \<open>
  C6. The constructor copies the outer dictionary of \<open>DEFAULT_CONFIG\<close> only, so the three
  inner dictionaries belong to the class and to every instance at once: after
  \<open>a.set("remote_control.port", 1)\<close> the instance \<open>b\<close>, made before, and the instance \<open>c\<close>,
  made after, both read 1 where the default is 22345.
\<close>

theorem Config_instances_share_defaults:
  "(let (a, h1) = Config_init plain_env no_files class_heap None;
        (b, h2) = Config_init plain_env no_files h1 None;
        h3 = snd (Config_set h2 a ''remote_control.port'' (PInt 1));
        (c, h4) = Config_init plain_env no_files h3 None
    in Config_get h2 b ''remote_control.port'' PNone = Inr (PInt 22345)
       \<and> Config_get h3 b ''remote_control.port'' PNone = Inr (PInt 1)
       \<and> Config_get h4 c ''remote_control.port'' PNone = Inr (PInt 1)
       \<and> Config_get h2 b ''filename'' PNone = Inr (PStr ''recording.xdf''))"
  by code_simp

subsection \<open>Loading\<close>

lemma Config_set_filename:
  "fst (Config_set h self ''filename'' x) = None"
proof -
  have "py_split (CHR ''.'') ''filename'' = [''filename'']" by code_simp
  then show ?thesis by (simp add: Config_set_def Let_def)
qed

lemma trail_keys: "(b, key) \<in> set (trail h v ks) \<Longrightarrow> key \<in> set ks"
proof (induction ks arbitrary: v)
  case Nil
  then show ?case by (cases v) auto
next
  case (Cons k ks)
  then show ?case by (cases v) (auto split: option.splits)
qed

lemma set_from_fresh_mono: "ks \<noteq> [] \<Longrightarrow> fresh h \<le> fresh (snd (set_from h v ks x))"
proof (induction ks arbitrary: h v)
  case Nil
  then show ?case by simp
next
  case (Cons k ks)
  show ?case
  proof (cases "is_mapping v")
    case False
    then show ?thesis using set_from_not_dict[OF False, of h k ks x] by (auto simp: alloc_def)
  next
    case True
    then obtain a where v: "v = PDict a" by (cases v) auto
    show ?thesis
    proof (cases ks)
      case Nil
      then show ?thesis by (simp add: v set_from_one)
    next
      case (Cons k' ks')
      show ?thesis
      proof (cases "map_of (objs h a) k")
        case None
        have "fresh (grown h a k) \<le> fresh (snd (set_from (grown h a k) (PDict (fresh h)) (k' # ks') x))"
          by (rule Cons.IH[unfolded Cons]) simp
        then show ?thesis using None by (simp add: v Cons set_from_dict_absent grown_fresh)
      next
        case (Some c)
        have "fresh h \<le> fresh (snd (set_from h c (k' # ks') x))"
          by (rule Cons.IH[unfolded Cons]) simp
        then show ?thesis using Some by (simp add: v Cons set_from_dict_present)
      qed
    qed
  qed
qed

lemma Config_set_keeps_entry:
  assumes "key' \<notin> set (py_split (CHR ''.'') key)" "config self < fresh h"
  shows "map_of (objs (snd (Config_set h self key x)) (config self)) key'
           = map_of (objs h (config self)) key'
         \<and> config self < fresh (snd (Config_set h self key x))"
proof -
  have nt: "(config self, key') \<notin> set (trail h (PDict (config self)) (py_split (CHR ''.'') key))"
    using assms(1) trail_keys by blast
  have a: "map_of (objs (snd (Config_set h self key x)) (config self)) key'
           = map_of (objs h (config self)) key'"
    unfolding Config_set_set_from using py_split_not_Nil nt assms(2) by (rule set_from_frame)
  have "fresh h \<le> fresh (snd (Config_set h self key x))"
    unfolding Config_set_set_from using py_split_not_Nil by (rule set_from_fresh_mono)
  then show ?thesis using a assms(2) by simp
qed

lemma Config_set_keeps_streams:
  assumes "''streams'' \<notin> set (py_split (CHR ''.'') key)"
    "config self < fresh h" "streams_ok h self"
  shows "config self < fresh (snd (Config_set h self key x))
         \<and> streams_ok (snd (Config_set h self key x)) self"
  using Config_set_keeps_entry[OF assms(1,2), of x] assms(3) by (simp add: streams_ok_def)

lemma try_set_int_keeps_streams:
  assumes "''streams'' \<notin> set (py_split (CHR ''.'') key)"
    "config self < fresh h" "streams_ok h self"
  shows "config self < fresh (try_set_int env cfg h self name key conv)
         \<and> streams_ok (try_set_int env cfg h self name key conv) self"
  using Config_set_keeps_streams[OF assms] assms(2,3)
  by (simp add: try_set_int_def split: option.splits sum.splits)

lemma set_required_labels_ok:
  assumes "config self < fresh h" "streams_ok h self"
  shows "fst (set_required_labels env cfg h self) = None"
proof (cases "map_of cfg ''RequiredStreams''")
  case None
  then show ?thesis by (simp add: set_required_labels_def)
next
  case (Some required)
  have o: "objs (fst (alloc h [])) (config self) = objs h (config self)"
    using assms(1) by (simp add: alloc_def)
  have "is_mapping (dict_get (objs h (config self)) ''streams'' (PDict (snd (alloc h []))))"
    using assms(2) by (auto simp: streams_ok_def dict_get_def split: option.splits)
  then obtain a where
    d: "dict_get (objs h (config self)) ''streams'' (PDict (snd (alloc h []))) = PDict a"
    by (cases "dict_get (objs h (config self)) ''streams'' (PDict (snd (alloc h [])))") auto
  show ?thesis using Some by (simp add: set_required_labels_def Let_def o d)
qed

lemma split_keys:
  "py_split (CHR ''.'') ''filename'' = [''filename'']"
  "py_split (CHR ''.'') ''remote_control.enabled'' = [''remote_control'', ''enabled'']"
  "py_split (CHR ''.'') ''remote_control.port'' = [''remote_control'', ''port'']"
  "py_split (CHR ''.'') ''auto_start'' = [''auto_start'']"
  by code_simp+

lemma legacy_load_error:
  assumes "config self < fresh h" "streams_ok h self"
    "fst (Config_load_from_cfg env fs h self f) \<noteq> None"
  shows "snd (Config_load_from_cfg env fs h self f) = h"
proof (cases "read_cfg_lines fs f")
  case (Inl e)
  then show ?thesis by (simp add: Config_load_from_cfg_def)
next
  case (Inr lines)
  define cfg where "cfg = config_parse_lines lines"
  show ?thesis
  proof (cases "config_choose_dest env cfg
                  (dict_get (objs h (config self)) ''filename'' (PStr ''recording.xdf''))")
    case (PStr dest)
    define h1 where "h1 = snd (Config_set h self ''filename'' (PStr (finish_dest env dest)))"
    define h2 where "h2 = try_set_int env cfg h1 self ''RCSEnabled''
                                   ''remote_control.enabled'' (\<lambda>i. PBool (i \<noteq> 0))"
    define h3 where "h3 = try_set_int env cfg h2 self ''RCSPort'' ''remote_control.port'' PInt"
    define h4 where "h4 = try_set_int env cfg h3 self ''AutoStart''
                                   ''auto_start'' (\<lambda>i. PBool (i \<noteq> 0))"
    have s: "Config_set h self ''filename'' (PStr (finish_dest env dest)) = (None, h1)"
      using Config_set_filename[of h self "PStr (finish_dest env dest)"]
      by (simp add: h1_def prod_eq_iff)
    have k1: "config self < fresh h1 \<and> streams_ok h1 self"
      unfolding h1_def using assms(1,2) by (intro Config_set_keeps_streams) (simp_all add: split_keys)
    have k2: "config self < fresh h2 \<and> streams_ok h2 self"
      unfolding h2_def using k1 by (intro try_set_int_keeps_streams) (simp_all add: split_keys)
    have k3: "config self < fresh h3 \<and> streams_ok h3 self"
      unfolding h3_def using k2 by (intro try_set_int_keeps_streams) (simp_all add: split_keys)
    have k4: "config self < fresh h4 \<and> streams_ok h4 self"
      unfolding h4_def using k3 by (intro try_set_int_keeps_streams) (simp_all add: split_keys)
    have "fst (set_required_labels env cfg h4 self) = None"
      using k4 by (intro set_required_labels_ok) simp_all
    moreover have "Config_load_from_cfg env fs h self f = set_required_labels env cfg h4 self"
      using Inr PStr s
      by (simp add: Config_load_from_cfg_def Let_def cfg_def[symmetric] h2_def h3_def h4_def)
    ultimately show ?thesis using assms(3) by simp
  qed (use Inr in \<open>simp_all add: Config_load_from_cfg_def Let_def cfg_def[symmetric]\<close>)
qed

text \<open>
  C8 (amended). \<open>load_from_file\<close> catches and reports every exception. For a JSON file any
  reported error leaves the store exactly as it was. For a legacy file the same holds
  in every store whose \<open>streams\<close> entry is absent or a mapping (the dictionary of the
  instance being an allocated object): whatever the file holds, a reported error
  means that nothing was written.
\<close>

theorem load_from_file_error_keeps_store:
  "(\<not> py_endswith (py_lower f) ''.cfg'' \<and> fst (Config_load_from_file env fs h self f) \<noteq> None
      \<longrightarrow> snd (Config_load_from_file env fs h self f) = h)
   \<and> (py_endswith (py_lower f) ''.cfg'' \<and> config self < fresh h \<and> streams_ok h self
        \<and> fst (Config_load_from_file env fs h self f) \<noteq> None
      \<longrightarrow> snd (Config_load_from_file env fs h self f) = h)"
proof -
  have a: "\<not> py_endswith (py_lower f) ''.cfg'' \<and> fst (Config_load_from_file env fs h self f) \<noteq> None
      \<longrightarrow> snd (Config_load_from_file env fs h self f) = h"
    by (auto simp: Config_load_from_file_def split: sum.splits jval.splits)
  have b: "py_endswith (py_lower f) ''.cfg'' \<and> config self < fresh h \<and> streams_ok h self
        \<and> fst (Config_load_from_file env fs h self f) \<noteq> None
      \<longrightarrow> snd (Config_load_from_file env fs h self f) = h"
    using legacy_load_error[of self h env fs f] by (simp add: Config_load_from_file_def)
  show ?thesis using a b by blast
qed

theorem load_from_file_error_keeps_store_witness:
  "fst (Config_load_from_file plain_env broken_files first_heap first_config ''settings.json'')
     = Some AttributeError
   \<and> snd (Config_load_from_file plain_env broken_files first_heap first_config ''settings.json'')
     = first_heap
   \<and> fst (Config_load_from_file plain_env broken_files first_heap first_config ''lab.cfg'')
     = Some OSError
   \<and> snd (Config_load_from_file plain_env broken_files first_heap first_config ''lab.cfg'')
     = first_heap"
proof -
  have j: "\<not> py_endswith (py_lower ''settings.json'') ''.cfg''" by code_simp
  have c: "py_endswith (py_lower ''lab.cfg'') ''.cfg''" by code_simp
  have e1: "fst (Config_load_from_file plain_env broken_files first_heap first_config ''settings.json'')
     = Some AttributeError" by code_simp
  have e2: "fst (Config_load_from_file plain_env broken_files first_heap first_config ''lab.cfg'')
     = Some OSError" by code_simp
  have w: "config first_config < fresh first_heap" by code_simp
  have s: "streams_ok first_heap first_config" by code_simp
  show ?thesis
    using load_from_file_error_keeps_store[of "''settings.json''" plain_env broken_files
        first_heap first_config]
      load_from_file_error_keeps_store[of "''lab.cfg''" plain_env broken_files
        first_heap first_config] j c e1 e2 w s
    by simp
qed

text \<open>
  The claim as stated fails: with \<open>streams\<close> holding an integer, a legacy file with a
  \<open>RequiredStreams\<close> line ends in a \<open>TypeError\<close> that is caught after the filename and the
  port have been written.
\<close>

theorem load_from_file_partial_load:
  "(let h1 = snd (Config_set first_heap first_config ''streams'' (PInt 5));
        (e, h2) = Config_load_from_file plain_env legacy_file h1 first_config ''lab.cfg''
    in e = Some TypeError
       \<and> Config_get h1 first_config ''filename'' PNone = Inr (PStr ''recording.xdf'')
       \<and> Config_get h2 first_config ''filename'' PNone = Inr (PStr ''take1.xdf'')
       \<and> Config_get h1 first_config ''remote_control.port'' PNone = Inr (PInt 22345)
       \<and> Config_get h2 first_config ''remote_control.port'' PNone = Inr (PInt 7))"
  by code_simp

end
